theory Spec2Isabelle
  imports Complex_Main
begin

section \<open>Loot context of one run\<close>

text \<open>
  Embedding of \<^verbatim>\<open>BP/scripts/vein_mine.js\<close>.  Item and block type identifiers are
  strings, block locations are integer triples.  A handler is a function from the host
  (world and player) it is called in to the host it leaves and the log of what it did;
  where the handler awaits a tick, the rest of the game may change the host.  A thrown
  exception is a value: a handler's promise is resolved or rejected.
\<close>

type_synonym ident = string

record pos =
  px :: int
  py :: int
  pz :: int

text \<open>An \<^verbatim>\<open>ItemStack\<close> as far as \<^verbatim>\<open>addLoot\<close> reads it: \<^verbatim>\<open>typeId\<close> and \<^verbatim>\<open>amount\<close>
  (\<^verbatim>\<open>undefined\<close> is \<open>None\<close>).\<close>

record itemStack =
  typeId :: ident
  amount :: "nat option"

text \<open>The per-run context.  The JavaScript \<^verbatim>\<open>Map\<close> keeps its keys in insertion order, so
  it is an association list; \<^verbatim>\<open>dimension\<close> is the dimension's id.\<close>

record veinCtx =
  loot :: "(ident \<times> nat) list"
  dimension :: string
  dropPos :: pos

text \<open>\<^verbatim>\<open>Map.prototype.get\<close> and \<^verbatim>\<open>Map.prototype.set\<close>: a key that is present keeps its
  place, a new key goes to the end.\<close>

fun mapGet :: "(ident \<times> nat) list \<Rightarrow> ident \<Rightarrow> nat option" where
  "mapGet [] k = None"
| "mapGet ((k', v) # m) k = (if k' = k then Some v else mapGet m k)"

fun mapSet :: "(ident \<times> nat) list \<Rightarrow> ident \<Rightarrow> nat \<Rightarrow> (ident \<times> nat) list" where
  "mapSet [] k v = [(k, v)]"
| "mapSet ((k', v') # m) k v = (if k' = k then (k, v) # m else (k', v') # mapSet m k v)"

text \<open>The nullish coalescing operator \<^verbatim>\<open>??\<close>.\<close>

definition orElse :: "'a option \<Rightarrow> 'a \<Rightarrow> 'a" where
  "orElse x d = (case x of None \<Rightarrow> d | Some v \<Rightarrow> v)"

definition createVeinContext :: "string \<Rightarrow> pos \<Rightarrow> veinCtx" where
  "createVeinContext dimId location = \<lparr> loot = [], dimension = dimId, dropPos = location \<rparr>"

definition addLoot :: "veinCtx \<Rightarrow> itemStack \<Rightarrow> veinCtx" where
  "addLoot ctx stack =
     (let tid = typeId stack;
          amt = orElse (amount stack) 1
      in ctx\<lparr> loot := mapSet (loot ctx) tid (orElse (mapGet (loot ctx) tid) 0 + amt) \<rparr>)"

text \<open>The inner \<^verbatim>\<open>while (remaining > 0)\<close> loop of \<^verbatim>\<open>dropVeinLoot\<close>: the sizes of the
  stacks spawned for one entry.\<close>

function splitStacks :: "nat \<Rightarrow> nat list" where
  "splitStacks remaining =
     (if remaining > 0
      then (let stackSize = min remaining 64
            in stackSize # splitStacks (remaining - stackSize))
      else [])"
  by pat_completeness auto
termination
  by (relation "measure (\<lambda>remaining. remaining)") auto

declare splitStacks.simps [simp del]

text \<open>A call of \<^verbatim>\<open>dimension.spawnItem(new ItemStack(typeId, stackSize), dropPos)\<close>.\<close>

record spawnCall =
  spawnType :: ident
  spawnSize :: nat
  spawnAt :: pos

fun dropEntries :: "pos \<Rightarrow> (ident \<times> nat) list \<Rightarrow> spawnCall list" where
  "dropEntries loc [] = []"
| "dropEntries loc ((t, qty) # entries) =
     map (\<lambda>stackSize. \<lparr> spawnType = t, spawnSize = stackSize, spawnAt = loc \<rparr>) (splitStacks qty)
     @ dropEntries loc entries"

definition dropVeinLoot :: "veinCtx \<Rightarrow> spawnCall list" where
  "dropVeinLoot ctx = dropEntries (dropPos ctx) (loot ctx)"

text \<open>Sizes of the stacks of one type among the spawn calls, and the quantity of one
  type that a sequence of \<^verbatim>\<open>addLoot\<close> calls adds.\<close>

definition stacksOf :: "ident \<Rightarrow> spawnCall list \<Rightarrow> nat list" where
  "stacksOf t calls = map spawnSize (filter (\<lambda>c. spawnType c = t) calls)"

definition totalAdded :: "ident \<Rightarrow> itemStack list \<Rightarrow> nat" where
  "totalAdded t stacks = sum_list (map (\<lambda>s. orElse (amount s) 1) (filter (\<lambda>s. typeId s = t) stacks))"

section \<open>The host: world, player and tool\<close>

record block =
  blockType :: ident
  blockTags :: "ident list"

text \<open>What \<^verbatim>\<open>dimension.getBlock(pos)\<close> does at a position: it throws (\<open>Unloaded\<close>), returns
  \<^verbatim>\<open>undefined\<close> (\<open>Missing\<close>) or returns a block.\<close>

datatype cell = Unloaded | Missing | Present block

text \<open>The \<^verbatim>\<open>ItemStack\<close> used as the tool.  \<open>durabilityValid\<close> is
  \<^verbatim>\<open>item.durability.isValidComponent()\<close>, \<open>usesLeft\<close> the uses the durability extension has
  left, \<open>components\<close> the custom components \<^verbatim>\<open>getComponent\<close> finds on the item.\<close>

record tool =
  toolType :: ident
  durabilityValid :: bool
  usesLeft :: nat
  components :: "ident list"

datatype gameMode = Survival | Creative | Adventure | Spectator

record vec3 =
  vx :: real
  vy :: real
  vz :: real

text \<open>Everything of the game a run reads or writes.  The \<open>...Value\<close> fields are the
  \<^verbatim>\<open>currentValue\<close> of the player components \<^verbatim>\<open>minecraft:food\<close>, \<^verbatim>\<open>player.hunger\<close> and
  \<^verbatim>\<open>player.saturation\<close>, \<open>None\<close> when \<^verbatim>\<open>getComponent\<close> returns \<^verbatim>\<open>undefined\<close>;
  \<open>noConsumeSaturation\<close> is the truthiness of the world's dynamic property
  \<^verbatim>\<open>dorios:noConsumeSaturation\<close>.\<close>

record host =
  blocks :: "pos \<Rightarrow> cell"
  mainhand :: "tool option"
  playerMode :: gameMode
  viewDirection :: vec3
  foodValue :: "real option"
  hungerValue :: "real option"
  saturationValue :: "real option"
  noConsumeSaturation :: bool

section \<open>The stamina governor\<close>

text \<open>\<^verbatim>\<open>reduceHunger(player, minusHunger = 1, minusSaturation = 1)\<close>.  The hunger component is
  \<^verbatim>\<open>getComponent('minecraft:food') ?? getComponent('player.hunger')\<close>; \<open>setHunger\<close> is
  \<^verbatim>\<open>setCurrentValue\<close> on whichever of the two that expression chose.\<close>

definition hungerComponent :: "host \<Rightarrow> real option" where
  "hungerComponent h = (case foodValue h of Some v \<Rightarrow> Some v | None \<Rightarrow> hungerValue h)"

definition setHunger :: "host \<Rightarrow> real \<Rightarrow> host" where
  "setHunger h v =
     (case foodValue h of Some _ \<Rightarrow> h\<lparr> foodValue := Some v \<rparr>
                        | None \<Rightarrow> h\<lparr> hungerValue := Some v \<rparr>)"

definition reduceHunger :: "host \<Rightarrow> real \<Rightarrow> real \<Rightarrow> bool \<times> host" where
  "reduceHunger h minusHunger minusSaturation =
     (if noConsumeSaturation h then (True, h)
      else case (hungerComponent h, saturationValue h) of
          (None, _) \<Rightarrow> (False, h)
        | (_, None) \<Rightarrow> (False, h)
        | (Some currentHunger, Some currentSaturation) \<Rightarrow>
            if currentSaturation - minusSaturation \<ge> 0
            then (True, h\<lparr> saturationValue := Some (currentSaturation - minusSaturation) \<rparr>)
            else if currentHunger - minusHunger \<ge> 0
            then (True, setHunger h (currentHunger - minusHunger))
            else (False, h))"

text \<open>The guard every handler puts around the call:
  \<^verbatim>\<open>if (cont % 10 == 0 && cont != 0) { if (!reduceHunger(player)) ... }\<close>.  The result is
  \<open>False\<close> exactly when the handler goes on to apply the nausea effect and leave.\<close>

definition staminaCheck :: "nat \<Rightarrow> host \<Rightarrow> bool \<times> host" where
  "staminaCheck cont h =
     (if cont mod 10 = 0 \<and> cont \<noteq> 0 then reduceHunger h 1 1 else (True, h))"

text \<open>The governor as the specification words it: a reserve covers a cost when the cost
  can be taken from it.\<close>

definition covers :: "real \<Rightarrow> real \<Rightarrow> bool" where
  "covers reserve cost = (cost \<le> reserve)"

section \<open>Traversal axis of the tunnels\<close>

datatype axis = AxisX | AxisY | AxisZ

definition allowVertical :: bool where
  "allowVertical = True"

text \<open>The axis block at the head of \<^verbatim>\<open>largeTunnel\<close>, \<^verbatim>\<open>smallTunnel\<close> and \<^verbatim>\<open>lineTunnel\<close>
  (the same text in all three): the pair of \<^verbatim>\<open>axis\<close> and \<^verbatim>\<open>stepSign\<close>.\<close>

definition chooseAxis :: "vec3 \<Rightarrow> axis \<times> int" where
  "chooseAxis v =
     (if \<not> allowVertical then
        (if \<bar>vx v\<bar> \<ge> \<bar>vz v\<bar> then (AxisX, if vx v \<ge> 0 then 1 else - 1)
         else (AxisZ, if vz v \<ge> 0 then 1 else - 1))
      else
        (if \<bar>vx v\<bar> \<ge> \<bar>vy v\<bar> \<and> \<bar>vx v\<bar> \<ge> \<bar>vz v\<bar> then (AxisX, if vx v \<ge> 0 then 1 else - 1)
         else if \<bar>vz v\<bar> \<ge> \<bar>vy v\<bar> then (AxisZ, if vz v \<ge> 0 then 1 else - 1)
         else (AxisY, if vy v \<ge> 0 then 1 else - 1)))"

fun component :: "axis \<Rightarrow> vec3 \<Rightarrow> real" where
  "component AxisX v = vx v"
| "component AxisY v = vy v"
| "component AxisZ v = vz v"

section \<open>Runs: state, events and the steps the handlers share\<close>

datatype fault = TypeError

text \<open>What a run does to the outside, in order: \<open>SetEquipment\<close>, \<open>PlaySound\<close> and
  \<open>AddEffect\<close> are the calls on the player, \<open>BreakBlock p\<close> a call of \<^verbatim>\<open>breakBlock\<close> on the
  block at \<open>p\<close>, \<open>ScriptEvent\<close> and \<open>FillAir\<close> the commands \<^verbatim>\<open>breakBlock\<close> runs,
  \<open>WaitTicks\<close> an \<^verbatim>\<open>await system.waitTicks(1)\<close>, \<open>Warn\<close> a \<^verbatim>\<open>console.warn\<close>, and
  \<open>DropLoot calls\<close> one pass of \<^verbatim>\<open>dropVeinLoot\<close> with the items it spawns.\<close>

datatype event =
    SetEquipment "tool option"
  | PlaySound string
  | AddEffect string
  | BreakBlock pos
  | ScriptEvent string pos
  | FillAir pos
  | WaitTicks
  | Warn pos
  | DropLoot "spawnCall list"

text \<open>What a run is given from outside the file: the imported \<^verbatim>\<open>blacklist\<close>, the loot
  table manager (\<open>None\<close> when \<^verbatim>\<open>generateLootFromBlock\<close> returns \<^verbatim>\<open>undefined\<close>), and what the
  rest of the game does to the host while the run waits for its \<open>n\<close>-th tick.\<close>

record env =
  blacklist :: "ident list"
  lootTable :: "block \<Rightarrow> tool option \<Rightarrow> itemStack list option"
  tick :: "nat \<Rightarrow> host \<Rightarrow> host"

record run =
  world :: host
  lootCtx :: veinCtx
  heldItem :: "tool option"
  events :: "event list"
  ticks :: nat

text \<open>How a loop body ends: it falls through or \<^verbatim>\<open>continue\<close>s (\<open>Next\<close>), \<^verbatim>\<open>break\<close>s,
  \<^verbatim>\<open>return\<close>s, or throws.\<close>

datatype 'a flow = Next 'a | Break 'a | Return 'a | Throw fault 'a

datatype outcome = Resolved | Rejected fault

text \<open>The tool check \<^verbatim>\<open>if (item) { ... if (currentMainhand?.typeId != item.typeId) ... }\<close>.\<close>

definition toolMismatch :: "run \<Rightarrow> bool" where
  "toolMismatch r =
     (case heldItem r of
        None \<Rightarrow> False
      | Some it \<Rightarrow> (case mainhand (world r) of
                     None \<Rightarrow> True
                   | Some currentMainhand \<Rightarrow> toolType currentMainhand \<noteq> toolType it))"

text \<open>Modelled from the spec: \<^verbatim>\<open>item.durability.damage()\<close>, an extension of \<^verbatim>\<open>ItemStack\<close>
  that is not in this file.  It damages the tool by one unit and answers whether the tool
  survived.\<close>

definition damage :: "tool \<Rightarrow> bool \<times> tool" where
  "damage t =
     (if usesLeft t \<le> 1 then (False, t\<lparr> usesLeft := 0 \<rparr>)
      else (True, t\<lparr> usesLeft := usesLeft t - 1 \<rparr>))"

text \<open>The durability block: in survival, with a tool that has a valid durability, damage
  it and write it back to the main hand, or empty the main hand and play the break sound.\<close>

definition wearTool :: "run \<Rightarrow> run" where
  "wearTool r =
     (case heldItem r of
        None \<Rightarrow> r
      | Some it \<Rightarrow>
          if playerMode (world r) = Survival \<and> durabilityValid it then
            (case damage it of
               (True, it') \<Rightarrow>
                 r\<lparr> heldItem := Some it',
                    world := (world r)\<lparr> mainhand := Some it' \<rparr>,
                    events := events r @ [SetEquipment (Some it')] \<rparr>
             | (False, it') \<Rightarrow>
                 r\<lparr> heldItem := Some it',
                    world := (world r)\<lparr> mainhand := None \<rparr>,
                    events := events r @ [SetEquipment None, PlaySound ''random.break''] \<rparr>)
          else r)"

definition air :: block where
  "air = \<lparr> blockType = ''minecraft:air'', blockTags = [] \<rparr>"

definition hasComponent :: "tool option \<Rightarrow> ident \<Rightarrow> bool" where
  "hasComponent item c = (case item of None \<Rightarrow> False | Some it \<Rightarrow> c \<in> set (components it))"

text \<open>\<^verbatim>\<open>breakBlock(player, item, block, veinCtx)\<close> on the block \<open>b\<close> at \<open>p\<close>, with the
  run's item and context (the handlers always pass a player, a block and a context, so the
  first line does not return and the drops go to the context).  Iterating over an
  \<^verbatim>\<open>undefined\<close> loot result throws.  The result is the exception, if any, and the run.\<close>

definition breakBlock :: "env \<Rightarrow> block \<Rightarrow> pos \<Rightarrow> run \<Rightarrow> fault option \<times> run" where
  "breakBlock e b p r0 =
     (let r = r0\<lparr> events := events r0 @ [BreakBlock p] \<rparr> in
      if ''dorios:machine'' \<in> set (blockTags b) then
        (None, r\<lparr> events := events r @ [ScriptEvent ''dorios:destroyMachine'' p] \<rparr>)
      else if ''dorios:generator'' \<in> set (blockTags b) then
        (None, r\<lparr> events := events r @ [ScriptEvent ''dorios:destroyGenerator'' p] \<rparr>)
      else if ''dorios:fluid'' \<in> set (blockTags b) then
        (None, r\<lparr> events := events r @ [ScriptEvent ''dorios:destroyTank'' p] \<rparr>)
      else if ''dorios:furnace'' \<in> set (blockTags b) then
        (None, r\<lparr> events := events r @ [ScriptEvent ''dorios:destroyFurnace'' p] \<rparr>)
      else if hasComponent (heldItem r) ''utilitycraft:hammer'' then
        (None, r\<lparr> events := events r @ [ScriptEvent ''dorios:hammerBlock'' p] \<rparr>)
      else if hasComponent (heldItem r) ''utilitycraft:block_loot'' then
        (None, r\<lparr> events := events r @ [ScriptEvent ''dorios:blockLoot'' p] \<rparr>)
      else
        (case lootTable e b (heldItem r) of
           None \<Rightarrow> (Some TypeError, r)
         | Some drops \<Rightarrow>
             (None, r\<lparr> lootCtx := foldl addLoot (lootCtx r) drops,
                       world := (world r)\<lparr> blocks := (blocks (world r))(p := Present air) \<rparr>,
                       events := events r @ [FillAir p] \<rparr>)))"

text \<open>\<^verbatim>\<open>await system.waitTicks(1)\<close>: the rest of the game runs for one tick.\<close>

definition waitTick :: "env \<Rightarrow> run \<Rightarrow> run" where
  "waitTick e r =
     r\<lparr> world := tick e (ticks r) (world r),
        ticks := Suc (ticks r),
        events := events r @ [WaitTicks] \<rparr>"

text \<open>The nausea penalty \<^verbatim>\<open>player.addEffect('nausea', 200, ...)\<close>, after a stamina check
  that left the host \<open>h\<close>.\<close>

definition penalise :: "host \<Rightarrow> run \<Rightarrow> run" where
  "penalise h r = r\<lparr> world := h, events := events r @ [AddEffect ''nausea''] \<rparr>"

text \<open>The \<^verbatim>\<open>finally\<close> block of every handler.\<close>

definition finallyDrop :: "run \<Rightarrow> run" where
  "finallyDrop r = r\<lparr> events := events r @ [DropLoot (dropVeinLoot (lootCtx r))] \<rparr>"

definition startRun :: "host \<Rightarrow> string \<Rightarrow> pos \<Rightarrow> tool option \<Rightarrow> run" where
  "startRun h dimId location item =
     \<lparr> world = h, lootCtx = createVeinContext dimId location, heldItem = item,
       events = [], ticks = 0 \<rparr>"

section \<open>Flood-fill handlers\<close>

definition dirs :: "pos list" where
  "dirs =
    [\<lparr> px = 1, py = 0, pz = 0 \<rparr>, \<lparr> px = - 1, py = 0, pz = 0 \<rparr>,
     \<lparr> px = 0, py = 1, pz = 0 \<rparr>, \<lparr> px = 0, py = - 1, pz = 0 \<rparr>,
     \<lparr> px = 0, py = 0, pz = 1 \<rparr>, \<lparr> px = 0, py = 0, pz = - 1 \<rparr>,
     \<lparr> px = 1, py = 1, pz = 0 \<rparr>, \<lparr> px = 1, py = - 1, pz = 0 \<rparr>,
     \<lparr> px = - 1, py = 1, pz = 0 \<rparr>, \<lparr> px = - 1, py = - 1, pz = 0 \<rparr>,
     \<lparr> px = 1, py = 0, pz = 1 \<rparr>, \<lparr> px = 1, py = 0, pz = - 1 \<rparr>,
     \<lparr> px = - 1, py = 0, pz = 1 \<rparr>, \<lparr> px = - 1, py = 0, pz = - 1 \<rparr>,
     \<lparr> px = 0, py = 1, pz = 1 \<rparr>, \<lparr> px = 0, py = 1, pz = - 1 \<rparr>,
     \<lparr> px = 0, py = - 1, pz = 1 \<rparr>, \<lparr> px = 0, py = - 1, pz = - 1 \<rparr>,
     \<lparr> px = 1, py = 1, pz = 1 \<rparr>, \<lparr> px = 1, py = 1, pz = - 1 \<rparr>,
     \<lparr> px = 1, py = - 1, pz = 1 \<rparr>, \<lparr> px = 1, py = - 1, pz = - 1 \<rparr>,
     \<lparr> px = - 1, py = 1, pz = 1 \<rparr>, \<lparr> px = - 1, py = 1, pz = - 1 \<rparr>,
     \<lparr> px = - 1, py = - 1, pz = 1 \<rparr>, \<lparr> px = - 1, py = - 1, pz = - 1 \<rparr>]"

definition neighbours :: "pos \<Rightarrow> pos list" where
  "neighbours p = map (\<lambda>d. \<lparr> px = px p + px d, py = py p + py d, pz = pz p + pz d \<rparr>) dirs"

text \<open>\<^verbatim>\<open>try { targetBlock = dim.getBlock(pos) } catch { }\<close>: \<^verbatim>\<open>undefined\<close> is \<open>None\<close>.\<close>

definition tryGetBlock :: "host \<Rightarrow> pos \<Rightarrow> block option" where
  "tryGetBlock h p = (case blocks h p of Unloaded \<Rightarrow> None | Missing \<Rightarrow> None | Present b \<Rightarrow> Some b)"

definition endsWith :: "string \<Rightarrow> string \<Rightarrow> bool" where
  "endsWith str suffix =
     (length suffix \<le> length str \<and> drop (length str - length suffix) str = suffix)"

definition isTreeBlock :: "ident \<Rightarrow> bool" where
  "isTreeBlock t = list_ex (\<lambda>p. endsWith t p) [''_log'', ''_leaves'', ''_stem'', ''_wart_block'']"

definition isOreBlock :: "ident \<Rightarrow> bool" where
  "isOreBlock t = (endsWith t ''_ore'' \<or> t = ''minecraft:ancient_debris'')"

text \<open>The state of the \<^verbatim>\<open>while\<close> loop: \<^verbatim>\<open>visited\<close> (a \<^verbatim>\<open>Set\<close>, in insertion order),
  \<^verbatim>\<open>toCheck\<close>, \<^verbatim>\<open>cont\<close> and the run.\<close>

type_synonym floodState = "pos list \<times> pos list \<times> nat \<times> run"

text \<open>One pass through the body of the \<^verbatim>\<open>while\<close> loop of \<^verbatim>\<open>shapelessVein\<close>,
  \<^verbatim>\<open>treeCapitator\<close> and \<^verbatim>\<open>veinMiner\<close>, which differ in the test \<open>eligible\<close> on the target
  block's type only.  \<^verbatim>\<open>toCheck.shift()\<close> of an empty array is \<^verbatim>\<open>undefined\<close>, and reading
  its \<^verbatim>\<open>x\<close> throws.\<close>

definition floodStep :: "env \<Rightarrow> (ident \<Rightarrow> bool) \<Rightarrow> floodState \<Rightarrow> floodState flow" where
  "floodStep e eligible s =
     (case s of (visited, toCheck, cont, r) \<Rightarrow>
        if toolMismatch r then Break s
        else
          (case toCheck of
             [] \<Rightarrow> Throw TypeError s
           | p # rest \<Rightarrow>
               if p \<in> set visited then Next (visited, rest, cont, r)
               else
                 (let visited' = visited @ [p];
                      targetBlock = tryGetBlock (world r) p
                  in if length visited' = 1
                        \<or> (case targetBlock of None \<Rightarrow> False | Some b \<Rightarrow> eligible (blockType b))
                     then
                       (let r1 = wearTool r in
                        case staminaCheck cont (world r1) of
                          (False, h) \<Rightarrow> Break (visited', rest, cont, penalise h r1)
                        | (True, h) \<Rightarrow>
                            (case targetBlock of
                               None \<Rightarrow>
                                 Next (visited', rest @ neighbours p, Suc cont, r1\<lparr> world := h \<rparr>)
                             | Some b \<Rightarrow>
                                 (case breakBlock e b p (r1\<lparr> world := h \<rparr>) of
                                    (Some f, r2) \<Rightarrow> Throw f (visited', rest, Suc cont, r2)
                                  | (None, r2) \<Rightarrow>
                                      Next (visited', rest @ neighbours p, Suc cont,
                                            waitTick e r2))))
                     else Next (visited', rest, cont, r))))"

text \<open>The loop \<^verbatim>\<open>while (toCheck.length > 0 && cont < maxVein)\<close>.  A throw leaves the
  \<^verbatim>\<open>try\<close> block and, after \<^verbatim>\<open>finally\<close>, rejects the handler's promise.\<close>

function floodLoop :: "env \<Rightarrow> (ident \<Rightarrow> bool) \<Rightarrow> int \<Rightarrow> floodState \<Rightarrow> outcome \<times> run" where
  "floodLoop e eligible maxVein (visited, toCheck, cont, r) =
     (if toCheck \<noteq> [] \<and> int cont < maxVein then
        (case floodStep e eligible (visited, toCheck, cont, r) of
           Next s' \<Rightarrow> floodLoop e eligible maxVein s'
         | Break (_, _, _, r') \<Rightarrow> (Resolved, r')
         | Return (_, _, _, r') \<Rightarrow> (Resolved, r')
         | Throw f (_, _, _, r') \<Rightarrow> (Rejected f, r'))
      else (Resolved, r))"
  by pat_completeness auto
termination
proof (relation "measures [\<lambda>(e, eligible, maxVein, visited, toCheck, cont, r). nat (maxVein - int cont),
                           \<lambda>(e, eligible, maxVein, visited, toCheck, cont, r). length toCheck]")
  show "wf (measures [\<lambda>(e, eligible, maxVein, visited, toCheck, cont, r). nat (maxVein - int cont),
                      \<lambda>(e, eligible, maxVein, visited, toCheck, cont, r). length toCheck])"
    by simp
next
  fix e eligible maxVein visited toCheck cont r s'
  assume g: "toCheck \<noteq> [] \<and> int cont < maxVein"
    and st: "floodStep e eligible (visited, toCheck, cont, r) = Next s'"
  obtain v' t' c' r' where s': "s' = (v', t', c', r')" by (cases s') auto
  from st [unfolded s']
  have "c' = Suc cont \<or> (c' = cont \<and> length t' < length toCheck)"
    by (auto simp: floodStep_def Let_def
        split: if_splits list.splits option.splits prod.splits bool.splits)
  with g s' show "((e, eligible, maxVein, s'), (e, eligible, maxVein, visited, toCheck, cont, r))
      \<in> measures [\<lambda>(e, eligible, maxVein, visited, toCheck, cont, r). nat (maxVein - int cont),
                   \<lambda>(e, eligible, maxVein, visited, toCheck, cont, r). length toCheck]"
    by auto
qed

declare floodLoop.simps [simp del]

text \<open>The handler around the loop: context, \<^verbatim>\<open>try\<close>, \<^verbatim>\<open>finally\<close>.  \<open>h\<close> is the host when
  the handler is called, \<open>location\<close> the location of \<^verbatim>\<open>block\<close>.\<close>

definition floodFill ::
  "env \<Rightarrow> (ident \<Rightarrow> bool) \<Rightarrow> host \<Rightarrow> string \<Rightarrow> pos \<Rightarrow> int \<Rightarrow> tool option \<Rightarrow> outcome \<times> run" where
  "floodFill e eligible h dimId location maxVein item =
     (case floodLoop e eligible maxVein ([], [location], 0, startRun h dimId location item) of
        (out, r) \<Rightarrow> (out, finallyDrop r))"

definition shapelessVein ::
  "env \<Rightarrow> host \<Rightarrow> string \<Rightarrow> pos \<Rightarrow> ident \<Rightarrow> int \<Rightarrow> tool option \<Rightarrow> outcome \<times> run" where
  "shapelessVein e h dimId location brokenBlock maxVein item =
     floodFill e (\<lambda>t. t = brokenBlock) h dimId location maxVein item"

definition treeCapitator ::
  "env \<Rightarrow> host \<Rightarrow> string \<Rightarrow> pos \<Rightarrow> ident \<Rightarrow> int \<Rightarrow> tool option \<Rightarrow> outcome \<times> run" where
  "treeCapitator e h dimId location brokenBlock maxVein item =
     floodFill e isTreeBlock h dimId location maxVein item"

definition veinMiner ::
  "env \<Rightarrow> host \<Rightarrow> string \<Rightarrow> pos \<Rightarrow> ident \<Rightarrow> int \<Rightarrow> tool option \<Rightarrow> outcome \<times> run" where
  "veinMiner e h dimId location brokenBlock maxVein item =
     floodFill e isOreBlock h dimId location maxVein item"

section \<open>Tunnel handlers\<close>

definition matchType :: bool where
  "matchType = True"

text \<open>The local \<^verbatim>\<open>getBlock(x, y, z)\<close> of the tunnel handlers: \<^verbatim>\<open>null\<close> and \<^verbatim>\<open>false\<close> are
  both falsy and only tested for that, so both are \<open>None\<close>.\<close>

definition getBlock :: "env \<Rightarrow> host \<Rightarrow> ident \<Rightarrow> pos \<Rightarrow> block option" where
  "getBlock e h brokenBlockPerm p =
     (case blocks h p of
        Unloaded \<Rightarrow> None
      | Missing \<Rightarrow> None
      | Present b \<Rightarrow>
          if blockType b = ''minecraft:air'' then None
          else if blockType b \<in> set (blacklist e) then None
          else if matchType \<and> blockType b \<noteq> brokenBlockPerm then None
          else Some b)"

text \<open>\<^verbatim>\<open>{ ...origin }\<close> moved by \<open>k\<close> along the axis.\<close>

fun advance :: "pos \<Rightarrow> axis \<Rightarrow> int \<Rightarrow> pos" where
  "advance origin AxisX k = origin\<lparr> px := px origin + k \<rparr>"
| "advance origin AxisY k = origin\<lparr> py := py origin + k \<rparr>"
| "advance origin AxisZ k = origin\<lparr> pz := pz origin + k \<rparr>"

text \<open>The body of the \<^verbatim>\<open>for\<close> loop of \<^verbatim>\<open>lineTunnel\<close> at depth \<open>d\<close>; the state is
  \<^verbatim>\<open>cont\<close> and the run.\<close>

definition lineStep ::
  "env \<Rightarrow> ident \<Rightarrow> pos \<Rightarrow> axis \<Rightarrow> int \<Rightarrow> nat \<Rightarrow> nat \<times> run \<Rightarrow> (nat \<times> run) flow" where
  "lineStep e brokenBlockPerm origin ax stepSign d s =
     (case s of (cont, r) \<Rightarrow>
        (let p = advance origin ax (int d * stepSign) in
         if toolMismatch r then Break s
         else
           (case getBlock e (world r) brokenBlockPerm p of
              None \<Rightarrow> Next s
            | Some blk \<Rightarrow>
                (let r1 = wearTool r in
                 case staminaCheck cont (world r1) of
                   (False, h) \<Rightarrow> Break (cont, penalise h r1)
                 | (True, h) \<Rightarrow>
                     (case breakBlock e blk p (r1\<lparr> world := h \<rparr>) of
                        (Some f, r2) \<Rightarrow> Return (Suc cont, r2\<lparr> events := events r2 @ [Warn p] \<rparr>)
                      | (None, r2) \<Rightarrow> Next (Suc cont, waitTick e r2))))))"

fun lineLoop ::
  "env \<Rightarrow> ident \<Rightarrow> pos \<Rightarrow> axis \<Rightarrow> int \<Rightarrow> nat list \<Rightarrow> nat \<times> run \<Rightarrow> run" where
  "lineLoop e brokenBlockPerm origin ax stepSign [] s = snd s"
| "lineLoop e brokenBlockPerm origin ax stepSign (d # ds) s =
     (case lineStep e brokenBlockPerm origin ax stepSign d s of
        Next s' \<Rightarrow> lineLoop e brokenBlockPerm origin ax stepSign ds s'
      | Break s' \<Rightarrow> snd s'
      | Return s' \<Rightarrow> snd s'
      | Throw f s' \<Rightarrow> snd s')"

text \<open>\<^verbatim>\<open>for (let d = 0; d < maxLength; d++)\<close> with \<^verbatim>\<open>maxLength = maxVein\<close>.\<close>

definition lineTunnel ::
  "env \<Rightarrow> host \<Rightarrow> string \<Rightarrow> pos \<Rightarrow> ident \<Rightarrow> int \<Rightarrow> tool option \<Rightarrow> outcome \<times> run" where
  "lineTunnel e h dimId location brokenBlockPerm maxVein item =
     (let maxLength = maxVein;
          (ax, stepSign) = chooseAxis (viewDirection h)
      in (Resolved,
          finallyDrop (lineLoop e brokenBlockPerm location ax stepSign [0 ..< nat maxLength]
                         (0, startRun h dimId location item))))"

text \<open>The body of the inner loop of \<^verbatim>\<open>smallTunnel\<close> for one offset of the 1x2 column.\<close>

definition smallCell ::
  "env \<Rightarrow> ident \<Rightarrow> pos \<Rightarrow> pos \<Rightarrow> nat \<times> run \<Rightarrow> (nat \<times> run) flow" where
  "smallCell e brokenBlockPerm base off s =
     (case s of (cont, r) \<Rightarrow>
        if toolMismatch r then Return s
        else
          (let p = \<lparr> px = px base + px off, py = py base + py off, pz = pz base + pz off \<rparr> in
           case getBlock e (world r) brokenBlockPerm p of
             None \<Rightarrow> Next s
           | Some blk \<Rightarrow>
               (let r1 = wearTool r in
                case staminaCheck cont (world r1) of
                  (False, h) \<Rightarrow> Return (cont, penalise h r1)
                | (True, h) \<Rightarrow>
                    (case breakBlock e blk p (r1\<lparr> world := h \<rparr>) of
                       (Some f, r2) \<Rightarrow> Return (Suc cont, r2\<lparr> events := events r2 @ [Warn p] \<rparr>)
                     | (None, r2) \<Rightarrow> Next (Suc cont, waitTick e r2)))))"

definition offsets :: "pos list" where
  "offsets = [\<lparr> px = 0, py = 0, pz = 0 \<rparr>, \<lparr> px = 0, py = 1, pz = 0 \<rparr>]"

fun smallColumn ::
  "env \<Rightarrow> ident \<Rightarrow> pos \<Rightarrow> pos list \<Rightarrow> nat \<times> run \<Rightarrow> (nat \<times> run) flow" where
  "smallColumn e brokenBlockPerm base [] s = Next s"
| "smallColumn e brokenBlockPerm base (off # offs) s =
     (case smallCell e brokenBlockPerm base off s of
        Next s' \<Rightarrow> smallColumn e brokenBlockPerm base offs s'
      | Break s' \<Rightarrow> Break s'
      | Return s' \<Rightarrow> Return s'
      | Throw f s' \<Rightarrow> Throw f s')"

fun smallLoop ::
  "env \<Rightarrow> ident \<Rightarrow> pos \<Rightarrow> axis \<Rightarrow> int \<Rightarrow> nat list \<Rightarrow> nat \<times> run \<Rightarrow> run" where
  "smallLoop e brokenBlockPerm origin ax stepSign [] s = snd s"
| "smallLoop e brokenBlockPerm origin ax stepSign (d # ds) s =
     (case smallColumn e brokenBlockPerm (advance origin ax (int d * stepSign)) offsets s of
        Next s' \<Rightarrow> smallLoop e brokenBlockPerm origin ax stepSign ds s'
      | Break s' \<Rightarrow> snd s'
      | Return s' \<Rightarrow> snd s'
      | Throw f s' \<Rightarrow> snd s')"

text \<open>\<^verbatim>\<open>for (let d = 0; d < maxLength; d++)\<close> with \<^verbatim>\<open>maxLength = Math.floor(maxVein / 2)\<close>.\<close>

definition smallTunnel ::
  "env \<Rightarrow> host \<Rightarrow> string \<Rightarrow> pos \<Rightarrow> ident \<Rightarrow> int \<Rightarrow> tool option \<Rightarrow> outcome \<times> run" where
  "smallTunnel e h dimId location brokenBlockPerm maxVein item =
     (let maxLength = maxVein div 2;
          (ax, stepSign) = chooseAxis (viewDirection h)
      in (Resolved,
          finallyDrop (smallLoop e brokenBlockPerm location ax stepSign [0 ..< nat maxLength]
                         (0, startRun h dimId location item))))"

text \<open>\<^verbatim>\<open>spiralOffsets(outward)\<close> and the cell of a cross-section: the slice centre moved
  by \<^verbatim>\<open>[dx, dy]\<close> in the two directions across the axis.\<close>

definition orderOut :: "(int \<times> int) list" where
  "orderOut = [(0, 0), (1, 0), (1, 1), (0, 1), (- 1, 1), (- 1, 0), (- 1, - 1), (0, - 1), (1, - 1)]"

definition spiralOffsets :: "bool \<Rightarrow> (int \<times> int) list" where
  "spiralOffsets outward = (if outward then orderOut else rev orderOut)"

fun sliceCell :: "axis \<Rightarrow> pos \<Rightarrow> int \<times> int \<Rightarrow> pos" where
  "sliceCell AxisX c (dx, dy) = c\<lparr> py := py c + dx, pz := pz c + dy \<rparr>"
| "sliceCell AxisY c (dx, dy) = c\<lparr> px := px c + dx, pz := pz c + dy \<rparr>"
| "sliceCell AxisZ c (dx, dy) = c\<lparr> px := px c + dx, py := py c + dy \<rparr>"

text \<open>The probe before the depth loop: \<^verbatim>\<open>hasSolid\<close> over the cross-section at the
  origin, leaving at the first cell \<^verbatim>\<open>getBlock\<close> accepts, and the \<^verbatim>\<open>sliceStart\<close> it gives.\<close>

fun hasSolid :: "env \<Rightarrow> host \<Rightarrow> ident \<Rightarrow> axis \<Rightarrow> pos \<Rightarrow> (int \<times> int) list \<Rightarrow> bool" where
  "hasSolid e h brokenBlockPerm ax sliceCenter [] = False"
| "hasSolid e h brokenBlockPerm ax sliceCenter (off # order) =
     (case getBlock e h brokenBlockPerm (sliceCell ax sliceCenter off) of
        Some b \<Rightarrow> True
      | None \<Rightarrow> hasSolid e h brokenBlockPerm ax sliceCenter order)"

definition sliceStart :: "env \<Rightarrow> host \<Rightarrow> ident \<Rightarrow> axis \<Rightarrow> pos \<Rightarrow> nat" where
  "sliceStart e h brokenBlockPerm ax origin =
     (if \<not> hasSolid e h brokenBlockPerm ax origin (spiralOffsets True) then 1 else 0)"

text \<open>The state of the inner loop of \<^verbatim>\<open>largeTunnel\<close>: \<^verbatim>\<open>cont\<close>, \<^verbatim>\<open>broken\<close>,
  \<^verbatim>\<open>foundInSlice\<close> and the run.\<close>

type_synonym largeState = "nat \<times> nat \<times> bool \<times> run"

definition largeCell ::
  "env \<Rightarrow> ident \<Rightarrow> int \<Rightarrow> axis \<Rightarrow> pos \<Rightarrow> int \<times> int \<Rightarrow> largeState \<Rightarrow> largeState flow" where
  "largeCell e brokenBlockPerm maxBlocks ax sliceCenter off s =
     (case s of (cont, broken, foundInSlice, r) \<Rightarrow>
        if toolMismatch r then Break s
        else
          (let p = sliceCell ax sliceCenter off in
           case getBlock e (world r) brokenBlockPerm p of
             None \<Rightarrow> Next s
           | Some blk \<Rightarrow>
               (let r1 = wearTool r in
                case staminaCheck cont (world r1) of
                  (False, h) \<Rightarrow> Break (cont, broken, foundInSlice, penalise h r1)
                | (True, h) \<Rightarrow>
                    (case breakBlock e blk p (r1\<lparr> world := h \<rparr>) of
                       (Some f, r2) \<Rightarrow>
                         Return (Suc cont, broken, foundInSlice,
                                 r2\<lparr> events := events r2 @ [Warn p] \<rparr>)
                     | (None, r2) \<Rightarrow>
                         if int (Suc broken) + 1 \<ge> maxBlocks
                         then Return (Suc cont, Suc broken, True, r2)
                         else Next (Suc cont, Suc broken, True, waitTick e r2)))))"

fun largeSlice ::
  "env \<Rightarrow> ident \<Rightarrow> int \<Rightarrow> axis \<Rightarrow> pos \<Rightarrow> (int \<times> int) list \<Rightarrow> largeState \<Rightarrow> largeState flow" where
  "largeSlice e brokenBlockPerm maxBlocks ax sliceCenter [] s = Next s"
| "largeSlice e brokenBlockPerm maxBlocks ax sliceCenter (off # order) s =
     (case largeCell e brokenBlockPerm maxBlocks ax sliceCenter off s of
        Next s' \<Rightarrow> largeSlice e brokenBlockPerm maxBlocks ax sliceCenter order s'
      | Break s' \<Rightarrow> Break s'
      | Return s' \<Rightarrow> Return s'
      | Throw f s' \<Rightarrow> Throw f s')"

text \<open>The depth loop.  A \<^verbatim>\<open>break\<close> of the inner loop only leaves the inner loop: the
  code after it, \<^verbatim>\<open>if (!foundInSlice) break; outward = !outward\<close>, runs as after a slice
  that was walked to its end.\<close>

fun largeLoop ::
  "env \<Rightarrow> ident \<Rightarrow> int \<Rightarrow> pos \<Rightarrow> axis \<Rightarrow> int \<Rightarrow> nat list \<Rightarrow> bool \<Rightarrow> nat \<times> nat \<times> run \<Rightarrow> run" where
  "largeLoop e brokenBlockPerm maxBlocks origin ax stepSign [] outward s = snd (snd s)"
| "largeLoop e brokenBlockPerm maxBlocks origin ax stepSign (d # ds) outward s =
     (case largeSlice e brokenBlockPerm maxBlocks ax (advance origin ax (int d * stepSign))
             (spiralOffsets outward) (fst s, fst (snd s), False, snd (snd s)) of
        Next (cont', broken', foundInSlice, r') \<Rightarrow>
          if \<not> foundInSlice then r'
          else largeLoop e brokenBlockPerm maxBlocks origin ax stepSign ds (\<not> outward)
                 (cont', broken', r')
      | Break (cont', broken', foundInSlice, r') \<Rightarrow>
          if \<not> foundInSlice then r'
          else largeLoop e brokenBlockPerm maxBlocks origin ax stepSign ds (\<not> outward)
                 (cont', broken', r')
      | Return (cont', broken', foundInSlice, r') \<Rightarrow> r'
      | Throw f (cont', broken', foundInSlice, r') \<Rightarrow> r')"

text \<open>\<^verbatim>\<open>for (let d = sliceStart; d <= maxLength; d++)\<close> with
  \<^verbatim>\<open>maxLength = Math.floor(maxVein / 4)\<close> and \<^verbatim>\<open>maxBlocks = maxVein * 2\<close>.\<close>

definition largeTunnel ::
  "env \<Rightarrow> host \<Rightarrow> string \<Rightarrow> pos \<Rightarrow> ident \<Rightarrow> int \<Rightarrow> tool option \<Rightarrow> outcome \<times> run" where
  "largeTunnel e h dimId location brokenBlockPerm maxVein item =
     (let maxLength = maxVein div 4;
          maxBlocks = maxVein * 2;
          (ax, stepSign) = chooseAxis (viewDirection h);
          start = sliceStart e h brokenBlockPerm ax location
      in (Resolved,
          finallyDrop (largeLoop e brokenBlockPerm maxBlocks location ax stepSign
                         [start ..< nat (maxLength + 1)] True
                         (0, 0, startRun h dimId location item))))"

section \<open>The trigger\<close>

text \<open>The player's flags and dynamic properties the subscriber reads; an unset property
  is \<open>None\<close>.  \<^verbatim>\<open>dorios:veinList\<close> holds the JSON text of a list of block types and is
  modelled by that list.\<close>

record playerProps =
  isSneaking :: bool
  isAdding :: bool
  isBlacklistAdding :: bool
  isDefaultAdding :: bool
  veinEnabled :: "bool option"
  veinShape :: "string option"
  veinLimit :: "int option"
  veinList :: "ident list option"

text \<open>The imports the subscriber uses besides \<^verbatim>\<open>blacklist\<close>: \<^verbatim>\<open>list\<close> of
  \<^verbatim>\<open>global_variables.js\<close> and \<^verbatim>\<open>is_diggable\<close> of \<^verbatim>\<open>is_diggable.js\<close> (the permutation is
  given by its type id).\<close>

record globals =
  defaultList :: "ident list"
  isDiggable :: "tool option \<Rightarrow> ident \<Rightarrow> bool"

text \<open>\<^verbatim>\<open>String.prototype.includes\<close> and \<^verbatim>\<open>String.prototype.replace\<close> with a string
  pattern (first occurrence only).\<close>

fun strIncludes :: "string \<Rightarrow> string \<Rightarrow> bool" where
  "strIncludes [] pat = (pat = [])"
| "strIncludes (c # str) pat = (take (length pat) (c # str) = pat \<or> strIncludes str pat)"

fun replaceFirst :: "string \<Rightarrow> string \<Rightarrow> string \<Rightarrow> string" where
  "replaceFirst [] pat rep = (if pat = [] then rep else [])"
| "replaceFirst (c # str) pat rep =
     (if take (length pat) (c # str) = pat then rep @ drop (length pat) (c # str)
      else c # replaceFirst str pat rep)"

text \<open>The table \<^verbatim>\<open>veinHandler\<close>: a shape that is not a key gives \<^verbatim>\<open>undefined\<close>.\<close>

definition veinHandler ::
  "string \<Rightarrow> (env \<Rightarrow> host \<Rightarrow> string \<Rightarrow> pos \<Rightarrow> ident \<Rightarrow> int \<Rightarrow> tool option \<Rightarrow> outcome \<times> run) option" where
  "veinHandler shape =
     (if shape = ''shapelessVein'' then Some shapelessVein
      else if shape = ''treeCapitator'' then Some treeCapitator
      else if shape = ''veinMiner'' then Some veinMiner
      else if shape = ''largeTunnel'' then Some largeTunnel
      else if shape = ''smallTunnel'' then Some smallTunnel
      else if shape = ''lineTunnel'' then Some lineTunnel
      else None)"

text \<open>What the subscriber ends in: it returns without a run, it throws, or it calls a
  handler (with the run that call makes).\<close>

datatype launch = NoRun | Uncaught fault | Started "outcome \<times> run"

definition callVein ::
  "env \<Rightarrow> host \<Rightarrow> string \<Rightarrow> string \<Rightarrow> pos \<Rightarrow> ident \<Rightarrow> int \<Rightarrow> tool option \<Rightarrow> launch" where
  "callVein e h shape dimId location brokenBlock limit item =
     (case veinHandler shape of
        None \<Rightarrow> Uncaught TypeError
      | Some vein \<Rightarrow> Started (vein e h dimId location brokenBlock limit item))"

text \<open>The subscriber of \<^verbatim>\<open>world.afterEvents.playerBreakBlock\<close>: the player's properties
  after it, and how it ended.  \<open>permType\<close> is \<^verbatim>\<open>brokenBlockPermutation.type.id\<close>.\<close>

definition playerBreakBlock ::
  "env \<Rightarrow> globals \<Rightarrow> host \<Rightarrow> playerProps \<Rightarrow> string \<Rightarrow> pos \<Rightarrow> ident \<Rightarrow> tool option
     \<Rightarrow> playerProps \<times> launch" where
  "playerBreakBlock e g h props dimId location permType itemStackBeforeBreak =
     (if \<not> isSneaking props \<or> playerMode h = Creative then (props, NoRun)
      else if isAdding props \<or> isBlacklistAdding props \<or> isDefaultAdding props then (props, NoRun)
      else
        (let isEnabled = orElse (veinEnabled props) True;
             shape = orElse (veinShape props) ''shapelessVein'';
             limit = orElse (veinLimit props) 64;
             vList = orElse (veinList props) (defaultList g);
             props1 = props\<lparr> veinEnabled := Some isEnabled, veinShape := Some shape,
                             veinLimit := Some limit, veinList := Some vList \<rparr>
         in if permType \<in> set (blacklist e) then
              (props1\<lparr> veinList := Some (filter (\<lambda>t. t \<noteq> permType) vList) \<rparr>, NoRun)
            else
              (let brokenBlock = (if strIncludes permType ''redstone_ore''
                                  then replaceFirst permType ''lit_'' [] else permType)
               in if \<not> isEnabled \<or> \<not> isDiggable g itemStackBeforeBreak permType then (props1, NoRun)
                  else
                    (case hungerValue h of
                       None \<Rightarrow> (props1, Uncaught TypeError)
                     | Some currentValue \<Rightarrow>
                         if currentValue = 0 then (props1, NoRun)
                         else if shape = ''largeTunnel'' \<or> shape = ''smallTunnel'' then
                           (props1, callVein e h shape dimId location brokenBlock limit
                                      itemStackBeforeBreak)
                         else if brokenBlock \<notin> set vList then (props1, NoRun)
                         else
                           (props1, callVein e h shape dimId location brokenBlock limit
                                      itemStackBeforeBreak)))))"

section \<open>Reading the event log\<close>

text \<open>The emission passes, the positions given to \<^verbatim>\<open>breakBlock\<close>, and the number of
  nausea penalties in a log.\<close>

fun emissions :: "event list \<Rightarrow> spawnCall list list" where
  "emissions [] = []"
| "emissions (DropLoot calls # evs) = calls # emissions evs"
| "emissions (ev # evs) = emissions evs"

fun breaks :: "event list \<Rightarrow> pos list" where
  "breaks [] = []"
| "breaks (BreakBlock p # evs) = p # breaks evs"
| "breaks (ev # evs) = breaks evs"

fun penalties :: "event list \<Rightarrow> nat" where
  "penalties [] = 0"
| "penalties (AddEffect eff # evs) = Suc (penalties evs)"
| "penalties (ev # evs) = penalties evs"

text \<open>The state a loop body ended in.\<close>

fun flowState :: "'a flow \<Rightarrow> 'a" where
  "flowState (Next s) = s"
| "flowState (Break s) = s"
| "flowState (Return s) = s"
| "flowState (Throw f s) = s"


section \<open>The rest of a run, and its block cap\<close>

text \<open>What is left of a \<^verbatim>\<open>smallTunnel\<close> or \<^verbatim>\<open>largeTunnel\<close> run from inside a column or
  slice: the offsets still to visit, then the depths still to visit.  These are the
  right-hand sides of \<open>smallLoop\<close> and \<open>largeLoop\<close> with the inner loop part-way.\<close>

definition smallRest ::
  "env \<Rightarrow> ident \<Rightarrow> pos \<Rightarrow> axis \<Rightarrow> int \<Rightarrow> pos \<Rightarrow> pos list \<Rightarrow> nat list \<Rightarrow> nat \<times> run \<Rightarrow> run" where
  "smallRest e brokenBlockPerm origin ax stepSign base offs ds s =
     (case smallColumn e brokenBlockPerm base offs s of
        Next s' \<Rightarrow> smallLoop e brokenBlockPerm origin ax stepSign ds s'
      | Break s' \<Rightarrow> snd s'
      | Return s' \<Rightarrow> snd s'
      | Throw f s' \<Rightarrow> snd s')"

definition largeRest ::
  "env \<Rightarrow> ident \<Rightarrow> int \<Rightarrow> pos \<Rightarrow> axis \<Rightarrow> int \<Rightarrow> pos \<Rightarrow> (int \<times> int) list \<Rightarrow> nat list \<Rightarrow> bool
     \<Rightarrow> largeState \<Rightarrow> run" where
  "largeRest e brokenBlockPerm maxBlocks origin ax stepSign sliceCenter order ds outward s =
     (case largeSlice e brokenBlockPerm maxBlocks ax sliceCenter order s of
        Next (cont', broken', foundInSlice, r') \<Rightarrow>
          if \<not> foundInSlice then r'
          else largeLoop e brokenBlockPerm maxBlocks origin ax stepSign ds (\<not> outward)
                 (cont', broken', r')
      | Break (cont', broken', foundInSlice, r') \<Rightarrow>
          if \<not> foundInSlice then r'
          else largeLoop e brokenBlockPerm maxBlocks origin ax stepSign ds (\<not> outward)
                 (cont', broken', r')
      | Return (cont', broken', foundInSlice, r') \<Rightarrow> r'
      | Throw f (cont', broken', foundInSlice, r') \<Rightarrow> r')"

text \<open>The invariant of \<^verbatim>\<open>largeTunnel\<close> between two cells: the calls of \<^verbatim>\<open>breakBlock\<close>
  so far are at most \<open>b0 + broken\<close>, and \<^verbatim>\<open>broken\<close> passed the test
  \<^verbatim>\<open>broken + 1 >= maxBlocks\<close> if it was ever made.  \<open>capBound\<close> is the number of calls
  that allows.\<close>

definition withinCap :: "int \<Rightarrow> nat \<Rightarrow> largeState \<Rightarrow> bool" where
  "withinCap maxBlocks b0 s =
     (case s of (cont, broken, foundInSlice, r) \<Rightarrow>
        length (breaks (events r)) \<le> b0 + broken \<and> (broken = 0 \<or> int broken + 1 < maxBlocks))"

definition capBound :: "int \<Rightarrow> nat" where
  "capBound maxBlocks = max 1 (nat (maxBlocks - 1))"

text \<open>Whether a log has a call of \<^verbatim>\<open>breakBlock\<close> while the main hand, as the run last set
  it and with no tick since, does not hold an item of the required type.\<close>

fun divergedBreak :: "ident \<Rightarrow> bool \<Rightarrow> event list \<Rightarrow> bool" where
  "divergedBreak required diverged [] = False"
| "divergedBreak required diverged (SetEquipment t # evs) =
     divergedBreak required (case t of None \<Rightarrow> True | Some x \<Rightarrow> toolType x \<noteq> required) evs"
| "divergedBreak required diverged (WaitTicks # evs) = divergedBreak required False evs"
| "divergedBreak required diverged (BreakBlock p # evs) =
     (diverged \<or> divergedBreak required diverged evs)"
| "divergedBreak required diverged (ev # evs) = divergedBreak required diverged evs"

text \<open>The two readings of the probe before the depth loop of \<^verbatim>\<open>largeTunnel\<close>: every
  cell of the cross-section is accepted by \<^verbatim>\<open>getBlock\<close>, or at least one is.\<close>

definition fullySolid :: "env \<Rightarrow> host \<Rightarrow> ident \<Rightarrow> axis \<Rightarrow> pos \<Rightarrow> bool" where
  "fullySolid e h brokenBlockPerm ax sliceCenter =
     list_all (\<lambda>off. getBlock e h brokenBlockPerm (sliceCell ax sliceCenter off) \<noteq> None) orderOut"

definition anySolid :: "env \<Rightarrow> host \<Rightarrow> ident \<Rightarrow> axis \<Rightarrow> pos \<Rightarrow> bool" where
  "anySolid e h brokenBlockPerm ax sliceCenter =
     list_ex (\<lambda>off. getBlock e h brokenBlockPerm (sliceCell ax sliceCenter off) \<noteq> None) orderOut"

section \<open>Concrete worlds\<close>

text \<open>Inputs for the examples: stone everywhere around an origin the player has just
  broken, a quiet game (no blacklist, one item per block, nothing changes during a tick),
  and players with and without stamina or tool.\<close>

definition stone :: block where
  "stone = \<lparr> blockType = ''minecraft:stone'', blockTags = [] \<rparr>"

definition quietEnv :: env where
  "quietEnv =
     \<lparr> blacklist = [],
       lootTable = (\<lambda>b item. Some [\<lparr> typeId = blockType b, amount = Some 1 \<rparr>]),
       tick = (\<lambda>n h. h) \<rparr>"


definition origin0 :: pos where
  "origin0 = \<lparr> px = 0, py = 0, pz = 0 \<rparr>"

definition solidHost :: host where
  "solidHost =
     \<lparr> blocks = (\<lambda>p. if p = origin0 then Present air else Present stone),
       mainhand = None, playerMode = Survival,
       viewDirection = \<lparr> vx = 1, vy = 0, vz = 0 \<rparr>,
       foodValue = None, hungerValue = Some 20, saturationValue = Some 5,
       noConsumeSaturation = False \<rparr>"

definition starvingHost :: host where
  "starvingHost =
     \<lparr> blocks = (\<lambda>p. Present stone),
       mainhand = None, playerMode = Survival,
       viewDirection = \<lparr> vx = 1, vy = 0, vz = 0 \<rparr>,
       foodValue = None, hungerValue = Some 0, saturationValue = Some 0,
       noConsumeSaturation = False \<rparr>"

definition noSaturationHost :: host where
  "noSaturationHost = solidHost\<lparr> saturationValue := None \<rparr>"

definition hungryHost :: host where
  "hungryHost = solidHost\<lparr> hungerValue := Some 1, saturationValue := Some 0 \<rparr>"

definition wornPick :: tool where
  "wornPick =
     \<lparr> toolType = ''minecraft:iron_pickaxe'', durabilityValid = True, usesLeft = 1,
       components = [] \<rparr>"


definition minerHost :: host where
  "minerHost = solidHost\<lparr> mainhand := Some wornPick \<rparr>"


definition oneBlockHost :: host where
  "oneBlockHost =
     solidHost\<lparr> blocks := (\<lambda>p. if p = \<lparr> px = 0, py = 1, pz = 0 \<rparr> then Present stone
                               else Present air) \<rparr>"

definition tunnelProps :: playerProps where
  "tunnelProps =
     \<lparr> isSneaking = True, isAdding = False, isBlacklistAdding = False, isDefaultAdding = False,
       veinEnabled = Some True, veinShape = Some ''largeTunnel'', veinLimit = Some 64,
       veinList = Some [''minecraft:stone''] \<rparr>"

definition anyGlobals :: globals where
  "anyGlobals = \<lparr> defaultList = [''minecraft:stone''], isDiggable = (\<lambda>item t. True) \<rparr>"

section \<open>Stack splitting\<close>

lemma splitStacks_sum: "sum_list (splitStacks n) = n"
proof (induction n rule: splitStacks.induct)
  case (1 remaining)
  show ?case
  proof (cases "remaining > 0")
    case True
    with 1 have "sum_list (splitStacks (remaining - min remaining 64)) = remaining - min remaining 64"
      by simp
    with True show ?thesis
      by (subst splitStacks.simps) (simp add: Let_def)
  next
    case False
    then show ?thesis by (subst splitStacks.simps) simp
  qed
qed

lemma splitStacks_bounds: "s \<in> set (splitStacks n) \<Longrightarrow> 1 \<le> s \<and> s \<le> 64"
proof (induction n rule: splitStacks.induct)
  case (1 remaining)
  show ?case
  proof (cases "remaining > 0")
    case True
    from "1.prems" True
    have "s = min remaining 64 \<or> s \<in> set (splitStacks (remaining - min remaining 64))"
      by (subst (asm) splitStacks.simps) (simp add: Let_def)
    then show ?thesis
    proof
      assume "s = min remaining 64"
      with True show ?thesis by simp
    next
      assume "s \<in> set (splitStacks (remaining - min remaining 64))"
      with "1.IH" True show ?thesis by simp
    qed
  next
    case False
    with "1.prems" show ?thesis by (subst (asm) splitStacks.simps) simp
  qed
qed

lemma stacksOf_append: "stacksOf t (xs @ ys) = stacksOf t xs @ stacksOf t ys"
  by (simp add: stacksOf_def)

lemma stacksOf_entry:
  "stacksOf t (map (\<lambda>stackSize. \<lparr> spawnType = k, spawnSize = stackSize, spawnAt = loc \<rparr>) ns)
     = (if k = t then ns else [])"
  by (induction ns) (auto simp: stacksOf_def)

lemma mapGet_mapSet: "mapGet (mapSet m k v) k' = (if k' = k then Some v else mapGet m k')"
  by (induction m k v rule: mapSet.induct) auto

lemma mapSet_keys: "set (map fst (mapSet m k v)) = insert k (set (map fst m))"
  by (induction m k v rule: mapSet.induct) auto

lemma mapSet_distinct: "distinct (map fst m) \<Longrightarrow> distinct (map fst (mapSet m k v))"
proof (induction m k v rule: mapSet.induct)
  case (1 k v)
  then show ?case by simp
next
  case (2 k' v' m k v)
  show ?case
  proof (cases "k' = k")
    case True
    with 2 show ?thesis by simp
  next
    case False
    with 2 have "distinct (map fst (mapSet m k v))" by simp
    moreover from 2 False have "k' \<notin> set (map fst (mapSet m k v))"
      unfolding mapSet_keys by simp
    ultimately show ?thesis using False by simp
  qed
qed

lemma mapGet_None: "k \<notin> set (map fst m) \<Longrightarrow> mapGet m k = None"
  by (induction m) auto

lemma stacksOf_Nil: "stacksOf t [] = []"
  by (simp add: stacksOf_def)

lemma stacksOf_dropEntries_absent:
  "t \<notin> set (map fst m) \<Longrightarrow> stacksOf t (dropEntries loc m) = []"
  by (induction m) (auto simp: stacksOf_append stacksOf_entry stacksOf_Nil)

lemma stacksOf_dropEntries:
  "distinct (map fst m) \<Longrightarrow>
   stacksOf t (dropEntries loc m) = splitStacks (orElse (mapGet m t) 0)"
proof (induction m)
  case Nil
  show ?case by (simp add: stacksOf_def orElse_def splitStacks.simps)
next
  case (Cons e m)
  obtain k v where e: "e = (k, v)" by (cases e)
  show ?case
  proof (cases "k = t")
    case True
    with Cons.prems e have "t \<notin> set (map fst m)" by auto
    then have "stacksOf t (dropEntries loc m) = []" by (rule stacksOf_dropEntries_absent)
    with True e show ?thesis
      by (simp add: stacksOf_append stacksOf_entry orElse_def)
  next
    case False
    with Cons e show ?thesis
      by (simp add: stacksOf_append stacksOf_entry)
  qed
qed

lemma addLoot_distinct:
  "distinct (map fst (loot ctx)) \<Longrightarrow> distinct (map fst (loot (addLoot ctx s)))"
  by (simp add: addLoot_def Let_def mapSet_distinct)

lemma addLoot_get:
  "orElse (mapGet (loot (addLoot ctx s)) t) 0
     = orElse (mapGet (loot ctx) t) 0 + (if typeId s = t then orElse (amount s) 1 else 0)"
  by (simp add: addLoot_def Let_def mapGet_mapSet orElse_def)

lemma addLoot_dropPos: "dropPos (addLoot ctx s) = dropPos ctx"
  by (simp add: addLoot_def Let_def)

lemma foldl_addLoot_distinct:
  "distinct (map fst (loot ctx)) \<Longrightarrow> distinct (map fst (loot (foldl addLoot ctx ss)))"
  by (induction ss arbitrary: ctx) (simp_all add: addLoot_distinct)

lemma foldl_addLoot_get:
  "orElse (mapGet (loot (foldl addLoot ctx ss)) t) 0
     = orElse (mapGet (loot ctx) t) 0 + totalAdded t ss"
proof (induction ss arbitrary: ctx)
  case Nil
  show ?case by (simp add: totalAdded_def)
next
  case (Cons s ss)
  have "orElse (mapGet (loot (foldl addLoot (addLoot ctx s) ss)) t) 0
          = orElse (mapGet (loot (addLoot ctx s)) t) 0 + totalAdded t ss"
    by (rule Cons.IH)
  then show ?case
    by (simp add: addLoot_get totalAdded_def)
qed

text \<open>
  Claim C2.  After any sequence of \<^verbatim>\<open>addLoot\<close> calls on a fresh context, the emission
  routine \<^verbatim>\<open>dropVeinLoot\<close> spawns, for every item type, stacks of size between 1 and 64
  whose sizes sum to the quantity added for that type; so a type with a positive quantity
  gets one or more stacks.
\<close>

theorem dropVeinLoot_splits_exactly:
  "(\<forall>n \<in> set (stacksOf t (dropVeinLoot (foldl addLoot (createVeinContext dimId location) stacks))).
      1 \<le> n \<and> n \<le> 64)
   \<and> sum_list (stacksOf t (dropVeinLoot (foldl addLoot (createVeinContext dimId location) stacks)))
       = totalAdded t stacks
   \<and> (0 < totalAdded t stacks \<longrightarrow>
       stacksOf t (dropVeinLoot (foldl addLoot (createVeinContext dimId location) stacks)) \<noteq> [])"
proof -
  define ctx where "ctx = foldl addLoot (createVeinContext dimId location) stacks"
  have d: "distinct (map fst (loot ctx))"
    unfolding ctx_def by (rule foldl_addLoot_distinct) (simp add: createVeinContext_def)
  have g: "orElse (mapGet (loot ctx) t) 0 = totalAdded t stacks"
    unfolding ctx_def by (simp add: foldl_addLoot_get) (simp add: createVeinContext_def orElse_def)
  have s: "stacksOf t (dropVeinLoot ctx) = splitStacks (totalAdded t stacks)"
    using stacksOf_dropEntries [OF d] g by (simp add: dropVeinLoot_def)
  have sum: "sum_list (stacksOf t (dropVeinLoot ctx)) = totalAdded t stacks"
    by (simp add: s splitStacks_sum)
  have ne: "0 < totalAdded t stacks \<longrightarrow> stacksOf t (dropVeinLoot ctx) \<noteq> []"
    using sum by auto
  from s sum ne show ?thesis
    unfolding ctx_def [symmetric] by (auto dest: splitStacks_bounds)
qed

theorem dropVeinLoot_splits_exactly_witness:
  "0 < totalAdded ''minecraft:coal''
         [\<lparr> typeId = ''minecraft:coal'', amount = Some 100 \<rparr>,
          \<lparr> typeId = ''minecraft:flint'', amount = None \<rparr>,
          \<lparr> typeId = ''minecraft:coal'', amount = Some 30 \<rparr>]
   \<and> stacksOf ''minecraft:coal''
         (dropVeinLoot (foldl addLoot (createVeinContext ''overworld'' \<lparr> px = 0, py = 64, pz = 0 \<rparr>)
            [\<lparr> typeId = ''minecraft:coal'', amount = Some 100 \<rparr>,
             \<lparr> typeId = ''minecraft:flint'', amount = None \<rparr>,
             \<lparr> typeId = ''minecraft:coal'', amount = Some 30 \<rparr>])) = [64, 64, 2]
   \<and> totalAdded ''minecraft:coal''
         [\<lparr> typeId = ''minecraft:coal'', amount = Some 100 \<rparr>,
          \<lparr> typeId = ''minecraft:flint'', amount = None \<rparr>,
          \<lparr> typeId = ''minecraft:coal'', amount = Some 30 \<rparr>] = 130"
proof -
  let ?stacks = "[\<lparr> typeId = ''minecraft:coal'', amount = Some 100 \<rparr>,
          \<lparr> typeId = ''minecraft:flint'', amount = None \<rparr>,
          \<lparr> typeId = ''minecraft:coal'', amount = Some 30 \<rparr>]"
  have t: "totalAdded ''minecraft:coal'' ?stacks = 130"
    by (simp add: totalAdded_def orElse_def)
  have c: "stacksOf ''minecraft:coal''
         (dropVeinLoot (foldl addLoot (createVeinContext ''overworld'' \<lparr> px = 0, py = 64, pz = 0 \<rparr>)
            ?stacks)) = [64, 64, 2]"
    by (simp add: stacksOf_def dropVeinLoot_def createVeinContext_def addLoot_def orElse_def
        splitStacks.simps Let_def)
  from dropVeinLoot_splits_exactly [of "''minecraft:coal''" "''overworld''"
      "\<lparr> px = 0, py = 64, pz = 0 \<rparr>" ?stacks] t c
  show ?thesis by simp
qed

section \<open>The stamina governor: properties\<close>

text \<open>
  Claim C6, as amended.  When the bypass flag is set, the check reports sufficient stamina
  and leaves the host as it is, whatever the host is.  When it is off, the governor acts
  only on a step index that is a nonzero multiple of 10: it reports abort when the
  player's hunger or saturation component is missing; otherwise it takes the cost 1 from
  the saturation reserve if saturation covers it, otherwise from the hunger reserve if
  hunger covers it, and reports abort when neither covers it.  An abort touches nothing,
  a deduction from one reserve leaves the other as it was.
\<close>

theorem staminaCheck_governor:
  "staminaCheck cont h =
     (if noConsumeSaturation h then (True, h)
      else if cont mod 10 = 0 \<and> cont \<noteq> 0 then
        (case hungerComponent h of
           None \<Rightarrow> (False, h)
         | Some hv \<Rightarrow>
             (case saturationValue h of
                None \<Rightarrow> (False, h)
              | Some sv \<Rightarrow>
                  if covers sv 1 then (True, h\<lparr> saturationValue := Some (sv - 1) \<rparr>)
                  else if covers hv 1 then (True, setHunger h (hv - 1))
                  else (False, h)))
      else (True, h))
   \<and> hungerComponent (h\<lparr> saturationValue := x \<rparr>) = hungerComponent h
   \<and> hungerComponent (setHunger h v) = Some v
   \<and> saturationValue (setHunger h v) = saturationValue h"
  by (auto simp: staminaCheck_def reduceHunger_def covers_def hungerComponent_def setHunger_def
      split: option.splits)

theorem staminaCheck_governor_witness:
  "staminaCheck 20 (solidHost\<lparr> hungerValue := Some 7, saturationValue := Some (1/2) \<rparr>)
     = (True, solidHost\<lparr> hungerValue := Some 6, saturationValue := Some (1/2) \<rparr>)
   \<and> staminaCheck 20 (solidHost\<lparr> noConsumeSaturation := True, saturationValue := None \<rparr>)
     = (True, solidHost\<lparr> noConsumeSaturation := True, saturationValue := None \<rparr>)"
proof -
  let ?h = "solidHost\<lparr> hungerValue := Some 7, saturationValue := Some (1/2) \<rparr>"
  let ?b = "solidHost\<lparr> noConsumeSaturation := True, saturationValue := None \<rparr>"
  have a: "hungerComponent ?h = Some 7" by (simp add: hungerComponent_def solidHost_def)
  have c: "\<not> noConsumeSaturation ?h" by (simp add: solidHost_def)
  from staminaCheck_governor [of 20 ?h] staminaCheck_governor [of 20 ?b] a c show ?thesis
    by (simp add: covers_def setHunger_def solidHost_def)
qed

text \<open>
  Claim C6 as stated fails where the guard
  \<^verbatim>\<open>if (!hungerComponent || !saturationComponent) return false\<close> applies: a player
  without the saturation component and with hunger 20 is refused on step 10, although the
  hunger reserve covers the cost.
\<close>

theorem abort_although_hunger_covers:
  "noConsumeSaturation noSaturationHost = False
   \<and> saturationValue noSaturationHost = None
   \<and> hungerComponent noSaturationHost = Some 20
   \<and> covers 20 1
   \<and> staminaCheck 10 noSaturationHost = (False, noSaturationHost)"
  by (simp add: noSaturationHost_def solidHost_def hungerComponent_def covers_def
      staminaCheck_def reduceHunger_def)

section \<open>Traversal axis: properties\<close>

lemma chooseAxis_cases:
  "chooseAxis v =
     (if \<bar>vx v\<bar> \<ge> \<bar>vy v\<bar> \<and> \<bar>vx v\<bar> \<ge> \<bar>vz v\<bar> then (AxisX, if vx v \<ge> 0 then 1 else - 1)
      else if \<bar>vz v\<bar> \<ge> \<bar>vy v\<bar> then (AxisZ, if vz v \<ge> 0 then 1 else - 1)
      else (AxisY, if vy v \<ge> 0 then 1 else - 1))"
  by (simp add: chooseAxis_def allowVertical_def)

lemma stepSign_sgn: "real_of_int (if (c::real) \<ge> 0 then 1 else - 1) = (if c = 0 then 1 else sgn c)"
  by (simp add: sgn_if)

text \<open>
  Claim C8.  The axis chosen from the aim vector carries the largest absolute component;
  \<open>x\<close> wins every tie it is part of, \<open>z\<close> wins a tie with \<open>y\<close>, so \<open>y\<close> is
  chosen only when it is strictly largest; the step sign is the sign of the chosen
  component (\<open>+1\<close> for a zero component, which a direction vector never has on its
  dominant axis).
\<close>

theorem chooseAxis_dominant:
  "\<bar>component (fst (chooseAxis v)) v\<bar> = max \<bar>vx v\<bar> (max \<bar>vy v\<bar> \<bar>vz v\<bar>)
   \<and> fst (chooseAxis v) =
       (if \<bar>vx v\<bar> = max \<bar>vx v\<bar> (max \<bar>vy v\<bar> \<bar>vz v\<bar>) then AxisX
        else if \<bar>vz v\<bar> = max \<bar>vx v\<bar> (max \<bar>vy v\<bar> \<bar>vz v\<bar>) then AxisZ
        else AxisY)
   \<and> real_of_int (snd (chooseAxis v)) =
       (if component (fst (chooseAxis v)) v = 0 then 1
        else sgn (component (fst (chooseAxis v)) v))"
proof -
  define a b c where "a = \<bar>vx v\<bar>" and "b = \<bar>vy v\<bar>" and "c = \<bar>vz v\<bar>"
  consider (x) "a \<ge> b" "a \<ge> c" | (z) "\<not> (a \<ge> b \<and> a \<ge> c)" "c \<ge> b" | (y) "\<not> (a \<ge> b \<and> a \<ge> c)" "\<not> c \<ge> b"
    by blast
  then show ?thesis
  proof cases
    case x
    then have ch: "chooseAxis v = (AxisX, if vx v \<ge> 0 then 1 else - 1)"
      unfolding a_def b_def c_def by (simp add: chooseAxis_cases)
    from x have m: "max a (max b c) = a" by linarith
    show ?thesis unfolding ch using m unfolding a_def b_def c_def
      by (simp add: stepSign_sgn)
  next
    case z
    then have ch: "chooseAxis v = (AxisZ, if vz v \<ge> 0 then 1 else - 1)"
      unfolding a_def b_def c_def by (simp add: chooseAxis_cases)
    from z have m: "max a (max b c) = c" "a \<noteq> c" by linarith+
    show ?thesis unfolding ch using m unfolding a_def b_def c_def
      by (simp add: stepSign_sgn)
  next
    case y
    then have ch: "chooseAxis v = (AxisY, if vy v \<ge> 0 then 1 else - 1)"
      unfolding a_def b_def c_def by (simp add: chooseAxis_cases)
    from y have m: "max a (max b c) = b" "a \<noteq> b" "c \<noteq> b" by linarith+
    show ?thesis unfolding ch using m unfolding a_def b_def c_def
      by (simp add: stepSign_sgn)
  qed
qed

section \<open>What the loops add to the log\<close>

lemma emissions_append: "emissions (xs @ ys) = emissions xs @ emissions ys"
  by (induction xs rule: emissions.induct) simp_all

lemma breaks_append: "breaks (xs @ ys) = breaks xs @ breaks ys"
  by (induction xs rule: breaks.induct) simp_all

lemma penalties_append: "penalties (xs @ ys) = penalties xs + penalties ys"
  by (induction xs rule: penalties.induct) simp_all

lemma wearTool_log:
  "emissions (events (wearTool r)) = emissions (events r)"
  "breaks (events (wearTool r)) = breaks (events r)"
  by (auto simp: wearTool_def emissions_append breaks_append split: option.splits prod.splits bool.splits)

lemma penalise_log:
  "emissions (events (penalise h r)) = emissions (events r)"
  "breaks (events (penalise h r)) = breaks (events r)"
  by (simp_all add: penalise_def emissions_append breaks_append)

lemma waitTick_log:
  "emissions (events (waitTick e r)) = emissions (events r)"
  "breaks (events (waitTick e r)) = breaks (events r)"
  by (simp_all add: waitTick_def emissions_append breaks_append)

lemma breakBlock_log:
  assumes "breakBlock e b p r = (f, r')"
  shows "emissions (events r') = emissions (events r)
       \<and> breaks (events r') = breaks (events r) @ [p]"
  using assms
  by (auto simp: breakBlock_def Let_def emissions_append breaks_append split: option.splits if_splits)

lemma floodStep_log:
  assumes "flowState (floodStep e eligible (visited, toCheck, cont, r)) = (visited', toCheck', cont', r')"
  shows "emissions (events r') = emissions (events r)"
    and "cont \<le> cont'"
    and "length (breaks (events r')) + cont \<le> length (breaks (events r)) + cont'"
proof -
  have "emissions (events r') = emissions (events r) \<and> cont \<le> cont'
      \<and> length (breaks (events r')) + cont \<le> length (breaks (events r)) + cont'"
    using assms
    by (auto simp: floodStep_def Let_def wearTool_log penalise_log waitTick_log
        dest!: breakBlock_log
        split: if_splits list.splits option.splits prod.splits bool.splits)
  then show "emissions (events r') = emissions (events r)"
    and "cont \<le> cont'"
    and "length (breaks (events r')) + cont \<le> length (breaks (events r)) + cont'" by auto
qed

lemma floodStep_Break_cont:
  "floodStep e eligible (visited, toCheck, cont, r) = Break (visited', toCheck', cont', r') \<Longrightarrow> cont' = cont"
  by (auto simp: floodStep_def Let_def
      split: if_splits list.splits option.splits prod.splits bool.splits)

lemma floodStep_cont_le:
  "flowState (floodStep e eligible (visited, toCheck, cont, r)) = (visited', toCheck', cont', r') \<Longrightarrow> cont' \<le> Suc cont"
  by (auto simp: floodStep_def Let_def
      split: if_splits list.splits option.splits prod.splits bool.splits)

lemma floodLoop_log:
  "emissions (events (snd (floodLoop e eligible maxVein s))) = emissions (events (snd (snd (snd s))))
   \<and> int (length (breaks (events (snd (floodLoop e eligible maxVein s)))))
       \<le> int (length (breaks (events (snd (snd (snd s)))))) + max 0 (maxVein - int (fst (snd (snd s))))"
proof (induction e eligible maxVein s rule: floodLoop.induct)
  case (1 e eligible maxVein visited toCheck cont r)
  show ?case
  proof (cases "toCheck \<noteq> [] \<and> int cont < maxVein")
    case False
    then have "floodLoop e eligible maxVein (visited, toCheck, cont, r) = (Resolved, r)"
      by (subst floodLoop.simps) auto
    then show ?thesis by simp
  next
    case guard: True
    obtain v' t' c' r' where fs:
      "flowState (floodStep e eligible (visited, toCheck, cont, r)) = (v', t', c', r')"
      by (cases "flowState (floodStep e eligible (visited, toCheck, cont, r))") auto
    note step = floodStep_log [OF fs]
    show ?thesis
    proof (cases "floodStep e eligible (visited, toCheck, cont, r)")
      case (Next s')
      with fs have s': "s' = (v', t', c', r')" by simp
      from "1.IH" [OF guard Next] s'
      have ih: "emissions (events (snd (floodLoop e eligible maxVein s'))) = emissions (events r')"
        "int (length (breaks (events (snd (floodLoop e eligible maxVein s')))))
           \<le> int (length (breaks (events r'))) + max 0 (maxVein - int c')"
        by simp_all
      have eq: "floodLoop e eligible maxVein (visited, toCheck, cont, r) = floodLoop e eligible maxVein s'"
        using guard Next by (simp add: floodLoop.simps)
      from floodStep_cont_le [OF fs] have "c' \<le> Suc cont" .
      with ih step guard show ?thesis unfolding eq by simp
    next
      case (Break s')
      with fs have s': "s' = (v', t', c', r')" by simp
      from floodStep_Break_cont [OF Break [unfolded s']] have "c' = cont" .
      with guard Break s' step show ?thesis by (simp add: floodLoop.simps)
    next
      case (Return s')
      then have False by (auto simp: floodStep_def Let_def
            split: if_splits list.splits option.splits prod.splits bool.splits)
      then show ?thesis ..
    next
      case (Throw f s')
      with fs have s': "s' = (v', t', c', r')" by simp
      from floodStep_cont_le [OF fs] have "c' \<le> Suc cont" .
      with guard Throw s' step show ?thesis by (simp add: floodLoop.simps)
    qed
  qed
qed

lemma lineStep_log:
  assumes "flowState (lineStep e perm origin ax stepSign d (cont, r)) = (cont', r')"
  shows "emissions (events r') = emissions (events r)
       \<and> length (breaks (events r')) \<le> Suc (length (breaks (events r)))"
  using assms
  by (auto simp: lineStep_def Let_def wearTool_log penalise_log waitTick_log emissions_append
        breaks_append
      dest!: breakBlock_log
      split: if_splits option.splits prod.splits bool.splits)

lemma lineLoop_log:
  "emissions (events (lineLoop e perm origin ax stepSign ds s)) = emissions (events (snd s))
   \<and> length (breaks (events (lineLoop e perm origin ax stepSign ds s)))
       \<le> length (breaks (events (snd s))) + length ds"
proof (induction ds arbitrary: s)
  case Nil
  show ?case by simp
next
  case (Cons d ds)
  obtain cont r where s: "s = (cont, r)" by (cases s)
  obtain cont' r' where fs: "flowState (lineStep e perm origin ax stepSign d (cont, r)) = (cont', r')"
    by (cases "flowState (lineStep e perm origin ax stepSign d (cont, r))")
  note step = lineStep_log [OF fs]
  show ?case
  proof (cases "lineStep e perm origin ax stepSign d (cont, r)")
    case (Next s')
    with fs have "s' = (cont', r')" by simp
    with Cons.IH [of s'] step Next s show ?thesis by simp
  qed (use fs step s in auto)
qed

lemma smallCell_log:
  assumes "flowState (smallCell e perm base off (cont, r)) = (cont', r')"
  shows "emissions (events r') = emissions (events r)
       \<and> length (breaks (events r')) \<le> Suc (length (breaks (events r)))"
  using assms
  by (auto simp: smallCell_def Let_def wearTool_log penalise_log waitTick_log emissions_append
        breaks_append
      dest!: breakBlock_log
      split: if_splits option.splits prod.splits bool.splits)

lemma smallColumn_log:
  "emissions (events (snd (flowState (smallColumn e perm base offs s)))) = emissions (events (snd s))
   \<and> length (breaks (events (snd (flowState (smallColumn e perm base offs s)))))
       \<le> length (breaks (events (snd s))) + length offs"
proof (induction offs arbitrary: s)
  case Nil
  show ?case by simp
next
  case (Cons off offs)
  obtain cont r where s: "s = (cont, r)" by (cases s)
  obtain cont' r' where fs: "flowState (smallCell e perm base off (cont, r)) = (cont', r')"
    by (cases "flowState (smallCell e perm base off (cont, r))")
  note step = smallCell_log [OF fs]
  show ?case
  proof (cases "smallCell e perm base off (cont, r)")
    case (Next s')
    with fs have "s' = (cont', r')" by simp
    with Cons.IH [of s'] step Next s show ?thesis by simp
  qed (use fs step s in auto)
qed

lemma smallLoop_log:
  "emissions (events (smallLoop e perm origin ax stepSign ds s)) = emissions (events (snd s))
   \<and> length (breaks (events (smallLoop e perm origin ax stepSign ds s)))
       \<le> length (breaks (events (snd s))) + 2 * length ds"
proof (induction ds arbitrary: s)
  case Nil
  show ?case by simp
next
  case (Cons d ds)
  let ?col = "smallColumn e perm (advance origin ax (int d * stepSign)) offsets s"
  have col: "emissions (events (snd (flowState ?col))) = emissions (events (snd s))"
    "length (breaks (events (snd (flowState ?col)))) \<le> length (breaks (events (snd s))) + 2"
    using smallColumn_log [of e perm "advance origin ax (int d * stepSign)" offsets s]
    by (simp_all add: offsets_def)
  show ?case
  proof (cases ?col)
    case (Next s')
    with Cons.IH [of s'] col show ?thesis by simp
  qed (use col in auto)
qed

lemma withinCap_bound:
  "withinCap maxBlocks b0 (cont, broken, f, r) \<Longrightarrow> Suc (length (breaks (events r))) \<le> b0 + capBound maxBlocks"
  by (auto simp: withinCap_def capBound_def)

lemma largeCell_log:
  assumes "withinCap maxBlocks b0 (cont, broken, f, r)"
  shows "emissions (events (snd (snd (snd (flowState (largeCell e perm maxBlocks ax c off (cont, broken, f, r)))))))
           = emissions (events r)
       \<and> (case largeCell e perm maxBlocks ax c off (cont, broken, f, r) of
            Next s' \<Rightarrow> withinCap maxBlocks b0 s'
          | Break s' \<Rightarrow> withinCap maxBlocks b0 s'
          | Return s' \<Rightarrow> length (breaks (events (snd (snd (snd s'))))) \<le> Suc (length (breaks (events r)))
          | Throw x s' \<Rightarrow> False)"
  using assms
  by (auto simp: largeCell_def Let_def withinCap_def wearTool_log penalise_log waitTick_log
        emissions_append breaks_append
      dest!: breakBlock_log
      split: if_splits option.splits prod.splits bool.splits)

lemma largeSlice_log:
  assumes "withinCap maxBlocks b0 s"
  shows "emissions (events (snd (snd (snd (flowState (largeSlice e perm maxBlocks ax c order s))))))
           = emissions (events (snd (snd (snd s))))
       \<and> (case largeSlice e perm maxBlocks ax c order s of
            Next s' \<Rightarrow> withinCap maxBlocks b0 s'
          | Break s' \<Rightarrow> withinCap maxBlocks b0 s'
          | Return s' \<Rightarrow> length (breaks (events (snd (snd (snd s'))))) \<le> b0 + capBound maxBlocks
          | Throw x s' \<Rightarrow> False)"
  using assms
proof (induction order arbitrary: s)
  case Nil
  then show ?case by simp
next
  case (Cons off order)
  obtain cont broken f r where s: "s = (cont, broken, f, r)" by (cases s)
  note cell = largeCell_log [OF Cons.prems [unfolded s], of e perm ax c off]
  note bound = withinCap_bound [OF Cons.prems [unfolded s]]
  show ?case
  proof (cases "largeCell e perm maxBlocks ax c off (cont, broken, f, r)")
    case (Next s')
    with cell have "withinCap maxBlocks b0 s'" by simp
    from Cons.IH [OF this] cell Next s show ?thesis by simp
  next
    case (Return s')
    with cell bound s show ?thesis by simp
  qed (use cell s in auto)
qed

lemma withinCap_found:
  "withinCap maxBlocks b0 (cont, broken, f, r) \<Longrightarrow> withinCap maxBlocks b0 (cont, broken, f', r)"
  by (simp add: withinCap_def)

lemma largeLoop_log:
  assumes "withinCap maxBlocks b0 (fst s, fst (snd s), False, snd (snd s))"
  shows "emissions (events (largeLoop e perm maxBlocks origin ax stepSign ds outward s))
           = emissions (events (snd (snd s)))
       \<and> length (breaks (events (largeLoop e perm maxBlocks origin ax stepSign ds outward s)))
           \<le> b0 + capBound maxBlocks"
  using assms
proof (induction ds arbitrary: s outward)
  case Nil
  obtain cont broken r where s: "s = (cont, broken, r)" by (cases s)
  from withinCap_bound [OF Nil [unfolded s]] s show ?case by simp
next
  case (Cons d ds)
  let ?sl = "largeSlice e perm maxBlocks ax (advance origin ax (int d * stepSign))
             (spiralOffsets outward) (fst s, fst (snd s), False, snd (snd s))"
  note sl = largeSlice_log [OF Cons.prems, of e perm ax "advance origin ax (int d * stepSign)"
      "spiralOffsets outward"]
  have after: "withinCap maxBlocks b0 s' \<Longrightarrow>
       emissions (events (snd (snd (snd s')))) = emissions (events (snd (snd s))) \<Longrightarrow>
       emissions (events (if \<not> fst (snd (snd s')) then snd (snd (snd s'))
          else largeLoop e perm maxBlocks origin ax stepSign ds (\<not> outward)
                 (fst s', fst (snd s'), snd (snd (snd s')))))
           = emissions (events (snd (snd s)))
       \<and> length (breaks (events (if \<not> fst (snd (snd s')) then snd (snd (snd s'))
          else largeLoop e perm maxBlocks origin ax stepSign ds (\<not> outward)
                 (fst s', fst (snd s'), snd (snd (snd s'))))))
           \<le> b0 + capBound maxBlocks" for s'
  proof -
    assume w: "withinCap maxBlocks b0 s'"
      and em: "emissions (events (snd (snd (snd s')))) = emissions (events (snd (snd s)))"
    obtain c' b' f' r' where s': "s' = (c', b', f', r')" by (cases s')
    from w s' have w': "withinCap maxBlocks b0 (c', b', False, r')" by (simp add: withinCap_def)
    from Cons.IH [of "(c', b', r')" "\<not> outward"] w'
    have ih: "emissions (events (largeLoop e perm maxBlocks origin ax stepSign ds (\<not> outward) (c', b', r')))
           = emissions (events r')"
      "length (breaks (events (largeLoop e perm maxBlocks origin ax stepSign ds (\<not> outward) (c', b', r'))))
           \<le> b0 + capBound maxBlocks" by simp_all
    from withinCap_bound [OF w [unfolded s']] ih em s' show ?thesis by simp
  qed
  show ?case
  proof (cases ?sl)
    case (Next s')
    with sl after [of s'] show ?thesis by (cases s') auto
  next
    case (Break s')
    with sl after [of s'] show ?thesis by (cases s') auto
  next
    case (Return s')
    with sl show ?thesis by (cases s') auto
  next
    case (Throw x s')
    with sl show ?thesis by simp
  qed
qed

lemma finallyDrop_breaks: "breaks (events (finallyDrop r)) = breaks (events r)"
  by (simp add: finallyDrop_def breaks_append)

lemma floodFill_breaks:
  assumes "0 \<le> maxVein"
  shows "int (length (breaks (events (snd (floodFill e eligible h dimId location maxVein item))))) \<le> maxVein"
proof -
  obtain out r where fl:
    "floodLoop e eligible maxVein ([], [location], 0, startRun h dimId location item) = (out, r)"
    by (cases "floodLoop e eligible maxVein ([], [location], 0, startRun h dimId location item)")
  from floodLoop_log [of e eligible maxVein "([], [location], 0, startRun h dimId location item)"]
    fl assms
  have "int (length (breaks (events r))) \<le> maxVein" by (simp add: startRun_def)
  with fl show ?thesis by (simp add: floodFill_def finallyDrop_breaks)
qed

lemma lineTunnel_breaks:
  assumes "0 \<le> maxVein"
  shows "int (length (breaks (events (snd (lineTunnel e h dimId location perm maxVein item))))) \<le> maxVein"
proof -
  obtain ax sg where ch: "chooseAxis (viewDirection h) = (ax, sg)"
    by (cases "chooseAxis (viewDirection h)")
  from lineLoop_log [of e perm location ax sg "[0 ..< nat maxVein]" "(0, startRun h dimId location item)"]
  have "length (breaks (events (lineLoop e perm location ax sg [0 ..< nat maxVein]
           (0, startRun h dimId location item)))) \<le> nat maxVein"
    by (simp add: startRun_def)
  with assms ch show ?thesis
    by (simp add: lineTunnel_def Let_def finallyDrop_breaks)
qed

lemma smallTunnel_breaks:
  assumes "0 \<le> maxVein"
  shows "int (length (breaks (events (snd (smallTunnel e h dimId location perm maxVein item))))) \<le> maxVein"
proof -
  obtain ax sg where ch: "chooseAxis (viewDirection h) = (ax, sg)"
    by (cases "chooseAxis (viewDirection h)")
  from smallLoop_log [of e perm location ax sg "[0 ..< nat (maxVein div 2)]"
      "(0, startRun h dimId location item)"]
  have "length (breaks (events (smallLoop e perm location ax sg [0 ..< nat (maxVein div 2)]
           (0, startRun h dimId location item)))) \<le> 2 * nat (maxVein div 2)"
    by (simp add: startRun_def)
  moreover from assms have "int (2 * nat (maxVein div 2)) \<le> maxVein" by simp
  ultimately have "int (length (breaks (events (smallLoop e perm location ax sg
           [0 ..< nat (maxVein div 2)] (0, startRun h dimId location item))))) \<le> maxVein"
    by linarith
  then show ?thesis using ch
    by (simp add: smallTunnel_def Let_def finallyDrop_breaks)
qed

lemma largeTunnel_breaks:
  assumes "1 \<le> maxVein"
  shows "int (length (breaks (events (snd (largeTunnel e h dimId location perm maxVein item)))))
           \<le> 2 * maxVein - 1"
proof -
  obtain ax sg where ch: "chooseAxis (viewDirection h) = (ax, sg)"
    by (cases "chooseAxis (viewDirection h)")
  have "length (breaks (events (largeLoop e perm (maxVein * 2) location ax sg ds True
           (0, 0, startRun h dimId location item)))) \<le> capBound (maxVein * 2)" for ds
    using largeLoop_log [of "maxVein * 2" 0 "(0, 0, startRun h dimId location item)"
        e perm location ax sg ds True]
    by (simp add: withinCap_def startRun_def)
  moreover from assms have "int (capBound (maxVein * 2)) = 2 * maxVein - 1"
    by (simp add: capBound_def)
  ultimately have "int (length (breaks (events (largeLoop e perm (maxVein * 2) location ax sg ds True
           (0, 0, startRun h dimId location item))))) \<le> 2 * maxVein - 1" for ds
    by (metis of_nat_le_iff)
  then show ?thesis using ch
    by (simp add: largeTunnel_def Let_def finallyDrop_breaks)
qed

section \<open>A failed tool check\<close>

lemma smallLoop_rest:
  "smallLoop e perm origin ax stepSign (d # ds) s
     = smallRest e perm origin ax stepSign (advance origin ax (int d * stepSign)) offsets ds s"
  by (simp add: smallRest_def)

lemma largeLoop_rest:
  "largeLoop e perm maxBlocks origin ax stepSign (d # ds) outward (cont, broken, r)
     = largeRest e perm maxBlocks origin ax stepSign (advance origin ax (int d * stepSign))
         (spiralOffsets outward) ds outward (cont, broken, False, r)"
  by (simp add: largeRest_def)

lemma floodLoop_mismatch:
  assumes "toolMismatch r"
  shows "floodLoop e eligible maxVein (visited, toCheck, cont, r) = (Resolved, r)"
  using assms by (subst floodLoop.simps) (simp add: floodStep_def)

lemma lineLoop_mismatch:
  assumes "toolMismatch r"
  shows "lineLoop e perm origin ax stepSign ds (cont, r) = r"
  using assms by (cases ds) (simp_all add: lineStep_def Let_def)

lemma smallLoop_mismatch:
  assumes "toolMismatch r"
  shows "smallLoop e perm origin ax stepSign ds (cont, r) = r"
  using assms by (cases ds) (simp_all add: offsets_def smallCell_def)

lemma smallRest_mismatch:
  assumes "toolMismatch r"
  shows "smallRest e perm origin ax stepSign base offs ds (cont, r) = r"
  using assms
  by (cases offs) (simp_all add: smallRest_def smallCell_def smallLoop_mismatch)

lemma largeSlice_mismatch:
  assumes "toolMismatch r"
  shows "largeSlice e perm maxBlocks ax c order (cont, broken, f, r)
           = (if order = [] then Next (cont, broken, f, r) else Break (cont, broken, f, r))"
  using assms by (cases order) (simp_all add: largeCell_def)

lemma largeLoop_mismatch:
  assumes "toolMismatch r"
  shows "largeLoop e perm maxBlocks origin ax stepSign ds outward (cont, broken, r) = r"
  using assms
  by (cases ds) (simp_all add: largeSlice_mismatch spiralOffsets_def orderOut_def)

lemma largeRest_mismatch:
  assumes "toolMismatch r"
  shows "largeRest e perm maxBlocks origin ax stepSign c order ds outward (cont, broken, f, r) = r"
  using assms
  by (simp add: largeRest_def largeSlice_mismatch largeLoop_mismatch)

section \<open>Loot emission on every exit path\<close>



section \<open>The block budget\<close>

text \<open>
  Claim C3, as amended.  For a budget \<open>maxVein\<close> of at least 1, a run of shapelessVein,
  treeCapitator, veinMiner, smallTunnel or lineTunnel calls \<^verbatim>\<open>breakBlock\<close> at most
  \<open>maxVein\<close> times, and a run of largeTunnel, whose cap is \<^verbatim>\<open>maxBlocks = maxVein * 2\<close>,
  at most \<open>2 * maxVein - 1\<close> times.
\<close>

theorem broken_blocks_bounded:
  assumes "1 \<le> maxVein"
  shows "(veinHandler shape = Some vein \<and> shape \<noteq> ''largeTunnel'' \<longrightarrow>
            int (length (breaks (events (snd (vein e h dimId location brokenBlock maxVein item)))))
              \<le> maxVein)
       \<and> int (length (breaks (events (snd (largeTunnel e h dimId location brokenBlock maxVein item)))))
              \<le> 2 * maxVein - 1"
proof -
  from assms have m: "0 \<le> maxVein" by simp
  have "int (length (breaks (events (snd (vein e h dimId location brokenBlock maxVein item)))))
          \<le> maxVein"
    if "veinHandler shape = Some vein" and "shape \<noteq> ''largeTunnel''"
  proof -
    from that consider
        "vein = shapelessVein" | "vein = treeCapitator" | "vein = veinMiner"
      | "vein = smallTunnel" | "vein = lineTunnel"
      by (auto simp: veinHandler_def split: if_splits)
    then show ?thesis
    proof cases
      case 1
      then show ?thesis using floodFill_breaks [OF m] by (simp add: shapelessVein_def)
    next
      case 2
      then show ?thesis using floodFill_breaks [OF m] by (simp add: treeCapitator_def)
    next
      case 3
      then show ?thesis using floodFill_breaks [OF m] by (simp add: veinMiner_def)
    next
      case 4
      then show ?thesis using smallTunnel_breaks [OF m] by simp
    next
      case 5
      then show ?thesis using lineTunnel_breaks [OF m] by simp
    qed
  qed
  with largeTunnel_breaks [OF assms] show ?thesis by blast
qed

theorem broken_blocks_bounded_witness:
  "(1::int) \<le> 2
   \<and> veinHandler ''lineTunnel'' = Some lineTunnel
   \<and> int (length (breaks (events (snd (lineTunnel quietEnv solidHost ''overworld'' origin0
         ''minecraft:stone'' 2 None))))) \<le> 2
   \<and> int (length (breaks (events (snd (largeTunnel quietEnv solidHost ''overworld'' origin0
         ''minecraft:stone'' 2 None))))) \<le> 2 * 2 - 1"
proof -
  have a: "(1::int) \<le> 2" by simp
  have b: "veinHandler ''lineTunnel'' = Some lineTunnel" by (simp add: veinHandler_def)
  from broken_blocks_bounded [OF a, of "''lineTunnel''" lineTunnel quietEnv solidHost
      "''overworld''" origin0 "''minecraft:stone''" None] a b
  show ?thesis by simp
qed

text \<open>
  Claim C3 as stated fails for largeTunnel: with budget 2 and stone all around the broken
  origin, the run breaks three blocks of the first cross-section before the test
  \<^verbatim>\<open>broken + 1 >= maxBlocks\<close> (with \<^verbatim>\<open>maxBlocks = 4\<close>) stops it.
\<close>

theorem largeTunnel_exceeds_budget:
  "breaks (events (snd (largeTunnel quietEnv solidHost ''overworld'' origin0 ''minecraft:stone'' 2 None)))
     = [\<lparr> px = 0, py = 1, pz = 0 \<rparr>, \<lparr> px = 0, py = 1, pz = 1 \<rparr>, \<lparr> px = 0, py = 0, pz = 1 \<rparr>]
   \<and> \<not> int (length (breaks (events (snd (largeTunnel quietEnv solidHost ''overworld'' origin0
           ''minecraft:stone'' 2 None))))) \<le> 2"
  by code_simp

section \<open>The tool check\<close>

text \<open>
  Claim C4, as amended.  Every pass of every loop starts with the tool check, and once a
  check finds the main hand's type different from the required item's, the rest of the run
  does nothing: the flood-fill loop, the line loop, and what is left of a small or large
  tunnel from any offset of any column or slice return the run as it is, so no further
  block is broken.
\<close>

theorem tool_mismatch_stops_run:
  assumes "toolMismatch r"
  shows "floodLoop e eligible maxVein (visited, toCheck, cont, r) = (Resolved, r)
       \<and> lineLoop e perm origin ax stepSign ds (cont, r) = r
       \<and> smallRest e perm origin ax stepSign base offs ds (cont, r) = r
       \<and> largeRest e perm maxBlocks origin ax stepSign c order ds outward (cont, broken, f, r) = r"
  using assms
  by (simp add: floodLoop_mismatch lineLoop_mismatch smallRest_mismatch largeRest_mismatch)

theorem tool_mismatch_stops_run_witness:
  "toolMismatch (startRun solidHost ''overworld'' origin0 (Some wornPick))
   \<and> floodLoop quietEnv isOreBlock 64 ([], [origin0], 0,
         startRun solidHost ''overworld'' origin0 (Some wornPick))
       = (Resolved, startRun solidHost ''overworld'' origin0 (Some wornPick))
   \<and> lineLoop quietEnv ''minecraft:stone'' origin0 AxisX 1 [0, 1, 2]
         (0, startRun solidHost ''overworld'' origin0 (Some wornPick))
       = startRun solidHost ''overworld'' origin0 (Some wornPick)
   \<and> smallRest quietEnv ''minecraft:stone'' origin0 AxisX 1 origin0 offsets [1, 2]
         (0, startRun solidHost ''overworld'' origin0 (Some wornPick))
       = startRun solidHost ''overworld'' origin0 (Some wornPick)
   \<and> largeRest quietEnv ''minecraft:stone'' 128 origin0 AxisX 1 origin0 orderOut [1, 2] True
         (0, 0, False, startRun solidHost ''overworld'' origin0 (Some wornPick))
       = startRun solidHost ''overworld'' origin0 (Some wornPick)"
proof -
  have a: "toolMismatch (startRun solidHost ''overworld'' origin0 (Some wornPick))"
    by (simp add: toolMismatch_def startRun_def solidHost_def)
  from tool_mismatch_stops_run [OF a] a show ?thesis by simp
qed

text \<open>
  Claim C4 as stated fails inside a step: the wear of the step destroys a tool on its last
  use, the main hand is emptied, and the step still breaks its block.  Here the pickaxe
  has one use left; the log shows the main hand set to nothing, then the call of
  \<^verbatim>\<open>breakBlock\<close>.
\<close>

theorem block_broken_after_tool_destroyed:
  "events (snd (lineTunnel quietEnv minerHost ''overworld'' origin0 ''minecraft:stone'' 3
      (Some wornPick)))
     = [SetEquipment None, PlaySound ''random.break'',
        BreakBlock \<lparr> px = 1, py = 0, pz = 0 \<rparr>, FillAir \<lparr> px = 1, py = 0, pz = 0 \<rparr>, WaitTicks,
        DropLoot [\<lparr> spawnType = ''minecraft:stone'', spawnSize = 1, spawnAt = origin0 \<rparr>]]
   \<and> divergedBreak ''minecraft:iron_pickaxe'' False
        (events (snd (lineTunnel quietEnv minerHost ''overworld'' origin0 ''minecraft:stone'' 3
           (Some wornPick))))"
  by code_simp

section \<open>The stamina penalty\<close>

lemma wearTool_penalties: "penalties (events (wearTool r)) = penalties (events r)"
  by (auto simp: wearTool_def penalties_append split: option.splits prod.splits bool.splits)

lemma penalise_penalties: "penalties (events (penalise h r)) = Suc (penalties (events r))"
  by (simp add: penalise_def penalties_append)

lemma starving_reserves_abort:
  assumes "hungerComponent h = Some 0" and "saturationValue h = Some 0"
    and "\<not> noConsumeSaturation h" and "cont mod 10 = 0" and "cont \<noteq> 0"
  shows "staminaCheck cont h = (False, h)"
  using assms by (simp add: staminaCheck_def reduceHunger_def)

lemma wearTool_reserves:
  "hungerComponent (world (wearTool r)) = hungerComponent (world r)"
  "saturationValue (world (wearTool r)) = saturationValue (world r)"
  "noConsumeSaturation (world (wearTool r)) = noConsumeSaturation (world r)"
  by (auto simp: wearTool_def hungerComponent_def split: option.splits prod.splits bool.splits)

text \<open>When the stamina check of a pass fails, the flood-fill handlers, lineTunnel and
  smallTunnel end the run in that pass: the tool is worn, the nausea effect is applied
  once, nothing is broken.\<close>

lemma siblings_penalise_once:
  assumes stam: "staminaCheck cont (world (wearTool r)) = (False, h)"
    and tool: "\<not> toolMismatch r"
  shows "(p \<notin> set visited \<and> int cont < maxVein
            \<and> (visited = [] \<or> (case tryGetBlock (world r) p of None \<Rightarrow> False
                                 | Some b \<Rightarrow> eligible (blockType b))) \<longrightarrow>
          floodLoop e eligible maxVein (visited, p # rest, cont, r)
            = (Resolved, penalise h (wearTool r)))
       \<and> (getBlock e (world r) perm (advance origin ax (int d * stepSign)) \<noteq> None \<longrightarrow>
          lineLoop e perm origin ax stepSign (d # ds) (cont, r) = penalise h (wearTool r))
       \<and> (getBlock e (world r) perm
             \<lparr> px = px base + px off, py = py base + py off, pz = pz base + pz off \<rparr> \<noteq> None \<longrightarrow>
          smallRest e perm origin ax stepSign base (off # offs) ds (cont, r)
            = penalise h (wearTool r))
       \<and> penalties (events (penalise h (wearTool r))) = Suc (penalties (events r))
       \<and> breaks (events (penalise h (wearTool r))) = breaks (events r)"
proof -
  have flood: "floodLoop e eligible maxVein (visited, p # rest, cont, r)
            = (Resolved, penalise h (wearTool r))"
    if "p \<notin> set visited" "int cont < maxVein"
      "visited = [] \<or> (case tryGetBlock (world r) p of None \<Rightarrow> False
                                 | Some b \<Rightarrow> eligible (blockType b))"
  proof -
    from that tool stam
    have "floodStep e eligible (visited, p # rest, cont, r)
            = Break (visited @ [p], rest, cont, penalise h (wearTool r))"
      by (auto simp: floodStep_def Let_def split: option.splits)
    with that show ?thesis by (subst floodLoop.simps) simp
  qed
  have line: "lineLoop e perm origin ax stepSign (d # ds) (cont, r) = penalise h (wearTool r)"
    if "getBlock e (world r) perm (advance origin ax (int d * stepSign)) \<noteq> None"
    using that tool stam by (auto simp: lineStep_def Let_def)
  have small: "smallRest e perm origin ax stepSign base (off # offs) ds (cont, r)
            = penalise h (wearTool r)"
    if "getBlock e (world r) perm
             \<lparr> px = px base + px off, py = py base + py off, pz = pz base + pz off \<rparr> \<noteq> None"
    using that tool stam by (auto simp: smallRest_def smallCell_def Let_def)
  from flood line small show ?thesis
    by (simp add: penalise_penalties wearTool_penalties penalise_log wearTool_log)
qed

text \<open>
  Claim C5 fails for largeTunnel.  With both reserves at 0 and the bypass flag off, the
  step with \<^verbatim>\<open>cont = 10\<close> applies the nausea effect and \<^verbatim>\<open>break\<close>s, but the \<^verbatim>\<open>break\<close>
  only leaves the loop over the cross-section: a block of that slice was broken before, so
  the depth loop goes on to the next slice, whose first block is penalised again.  Ten
  blocks are broken, and the effect is applied twice.
\<close>

theorem largeTunnel_penalises_twice:
  "penalties (events (snd (largeTunnel quietEnv starvingHost ''overworld'' origin0
      ''minecraft:stone'' 64 None))) = 2
   \<and> length (breaks (events (snd (largeTunnel quietEnv starvingHost ''overworld'' origin0
      ''minecraft:stone'' 64 None)))) = 10"
  by code_simp

text \<open>The same through the subscriber, which does not start a run at hunger 0: the
  player has hunger 1 and saturation 0, the step with \<^verbatim>\<open>cont = 10\<close> takes the last
  hunger point, and the step with \<^verbatim>\<open>cont = 20\<close> finds both reserves at 0.\<close>

lemma trigger_starts_largeTunnel:
  "snd (playerBreakBlock quietEnv anyGlobals hungryHost tunnelProps ''overworld'' origin0
        ''minecraft:stone'' None)
     = Started (largeTunnel quietEnv hungryHost ''overworld'' origin0 ''minecraft:stone'' 64 None)"
  by (simp add: playerBreakBlock_def tunnelProps_def anyGlobals_def orElse_def callVein_def
      veinHandler_def hungryHost_def solidHost_def quietEnv_def Let_def)

lemma largeTunnel_penalises_twice_after_trigger:
  "penalties (events (snd (largeTunnel quietEnv hungryHost ''overworld'' origin0
      ''minecraft:stone'' 64 None))) = 2
   \<and> length (breaks (events (snd (largeTunnel quietEnv hungryHost ''overworld'' origin0
      ''minecraft:stone'' 64 None)))) = 20"
  by code_simp

section \<open>The probe of the leading slice\<close>

lemma hasSolid_list_ex:
  "hasSolid e h perm ax c order
     = list_ex (\<lambda>off. getBlock e h perm (sliceCell ax c off) \<noteq> None) order"
  by (induction order) (auto split: option.splits)

text \<open>
  Claim C7, as amended.  Before the depth loop, largeTunnel probes the cross-section at
  the origin (depth 0) for a cell that \<^verbatim>\<open>getBlock\<close> accepts: the first depth of the loop
  is 1 when there is none, and 0 when there is at least one.
\<close>

theorem sliceStart_probe:
  "sliceStart e h brokenBlockPerm ax origin
     = (if anySolid e h brokenBlockPerm ax origin then 0 else 1)"
  by (simp add: sliceStart_def anySolid_def hasSolid_list_ex spiralOffsets_def)

text \<open>
  Claim C7 as stated fails: a cross-section that is not fully solid is not skipped when it
  has one eligible block.  Here only the cell above the origin is stone.
\<close>

theorem partly_solid_slice_not_skipped:
  "\<not> fullySolid quietEnv oneBlockHost ''minecraft:stone'' AxisX origin0
   \<and> sliceStart quietEnv oneBlockHost ''minecraft:stone'' AxisX origin0 = 0"
  by code_simp

section \<open>Positions that do not resolve\<close>




section \<open>The trigger and an empty hunger bar\<close>

text \<open>
  Claim C10.  When the player's hunger value is exactly 0, the subscriber ends without
  calling a handler, whatever the shape, the settings and the bypass flag are.
\<close>

theorem trigger_no_run_when_starving:
  assumes "hungerValue h = Some 0"
  shows "snd (playerBreakBlock e g h props dimId location permType item) = NoRun"
  using assms by (simp add: playerBreakBlock_def Let_def)

theorem trigger_no_run_when_starving_witness:
  "hungerValue (starvingHost\<lparr> noConsumeSaturation := True \<rparr>) = Some 0
   \<and> snd (playerBreakBlock quietEnv anyGlobals (starvingHost\<lparr> noConsumeSaturation := True \<rparr>)
        tunnelProps ''overworld'' origin0 ''minecraft:stone'' None) = NoRun"
proof -
  have a: "hungerValue (starvingHost\<lparr> noConsumeSaturation := True \<rparr>) = Some 0"
    by (simp add: starvingHost_def)
  from trigger_no_run_when_starving [OF a] a show ?thesis by simp
qed

end
